theory Spec2Isabelle
  imports Complex_Main "HOL-Library.Multiset"
begin

section \<open>JavaScript helpers shared by the screens\<close>

text \<open>
  JSON numbers that the screens treat as counters (tries, scores, XP, indices) are
  modelled as \<^typ>\<open>int\<close>; other numbers are rationals. A quotient is rounded to the
  nearest double where the code goes on to format it in decimal (\<open>to_double\<close>, in the
  detective screen) and is kept exact elsewhere. An optional JSON field is an
  \<^typ>\<open>'a option\<close>, \<open>None\<close> standing for \<open>undefined\<close>/\<open>null\<close>.
\<close>

text \<open>\<open>Array.prototype.findIndex\<close>: the first index whose element satisfies the
  predicate, \<open>-1\<close> when there is none.\<close>

fun findIndex_from :: "int \<Rightarrow> ('a \<Rightarrow> bool) \<Rightarrow> 'a list \<Rightarrow> int" where
  "findIndex_from k P [] = -1"
| "findIndex_from k P (x # xs) = (if P x then k else findIndex_from (k + 1) P xs)"

definition findIndex :: "('a \<Rightarrow> bool) \<Rightarrow> 'a list \<Rightarrow> int" where
  "findIndex P xs = findIndex_from 0 P xs"

text \<open>\<open>a.slice(0, n)\<close>: a negative end counts from the end of the array.\<close>

definition slice0 :: "'a list \<Rightarrow> int \<Rightarrow> 'a list" where
  "slice0 a n = (if n < 0 then take (nat (int (length a) + n)) a else take (nat n) a)"

text \<open>Reading and writing a JavaScript array of numbers that may have holes: a read
  outside the array is \<open>undefined\<close>, a write beyond the end extends the array.\<close>

definition js_get :: "int option list \<Rightarrow> nat \<Rightarrow> int option" where
  "js_get xs i = (if i < length xs then xs ! i else None)"

definition js_set :: "int option list \<Rightarrow> nat \<Rightarrow> int \<Rightarrow> int option list" where
  "js_set xs i v =
     (if i < length xs then xs[i := Some v]
      else xs @ replicate (i - length xs) None @ [Some v])"

text \<open>JavaScript truthiness of an optional string and of an optional number.\<close>

definition truthy_str :: "string option \<Rightarrow> bool" where
  "truthy_str s = (case s of None \<Rightarrow> False | Some t \<Rightarrow> t \<noteq> [])"

definition truthy_num :: "int option \<Rightarrow> bool" where
  "truthy_num n = (case n of None \<Rightarrow> False | Some k \<Rightarrow> k \<noteq> 0)"

section \<open>The local trivia screen (\<open>games/trivia-test.tsx\<close>)\<close>

record UIQuestion =
  id_q :: string
  question :: string
  choices :: "string list"
  correctIndex :: int
  explanation :: "string option"

record SubmitResult =
  score :: int
  total :: nat
  accuracy :: rat
  xpEarned :: int
  level :: int
  streak :: int
  explanations_r :: "string list"

text \<open>The question bank. Characters outside ASCII are given by their UTF-8 bytes.\<close>

definition bank :: "UIQuestion list" where
  "bank = [
    \<lparr> id_q = ''q1'',
      question = ''You put $600 into an emergency fund each month. About how much after 6 months (no interest)?'',
      choices = [''$2,400'', ''$3,600'', ''$4,200'', ''$6,000''],
      correctIndex = 1,
      explanation = Some (''$600 '' @ [CHR 0xC3, CHR 0x97] @ '' 6 = $3,600.'') \<rparr>,
    \<lparr> id_q = ''q2'',
      question = ''Your credit card shows 20% APR. What does APR best describe?'',
      choices = [''Annual interest rate'', ''Monthly late fee'', ''Card limit'', ''Cash-back rate''],
      correctIndex = 0,
      explanation = Some ''APR is the yearly interest rate on balances.'' \<rparr>,
    \<lparr> id_q = ''q3'',
      question = ''Your take-home pay is $3,000. A 50/30/20 budget suggests how much for savings/debt?'',
      choices = [''$300'', ''$450'', ''$600'', ''$900''],
      correctIndex = 2,
      explanation = Some ''20% of $3,000 = $600.'' \<rparr>,
    \<lparr> id_q = ''q4'',
      question = ''You owe $1,200 at 1% monthly interest and pay only $12 this month. What happens?'',
      choices = [''Balance unchanged'', ''Balance increases'', ''Balance drops to $1,188'', ''Account closes''],
      correctIndex = 1,
      explanation = Some (''$12 covers interest only '' @ [CHR 0xE2, CHR 0x86, CHR 0x92]
                          @ '' principal remains; more fees may accrue.'') \<rparr>,
    \<lparr> id_q = ''q5'',
      question = ''A savings account pays 4% APY. Roughly how much interest on $1,000 after one year?'',
      choices = [''$4'', ''$40'', ''$400'', ''$140''],
      correctIndex = 1,
      explanation = Some ([CHR 0xE2, CHR 0x89, CHR 0x88]
                          @ '' 4% of $1,000 = $40 (ignoring compounding nuance).'') \<rparr>,
    \<lparr> id_q = ''q6'',
      question = ''You finance a $20,000 car for 5 years at a fixed rate. Lower monthly payment usually means''
                 @ [CHR 0xE2, CHR 0x80, CHR 0xA6],
      choices = [''Shorter loan term'', ''More interest over life'', ''Higher credit score'', ''Higher down payment''],
      correctIndex = 1,
      explanation = Some (''Longer term '' @ [CHR 0xE2, CHR 0x86, CHR 0x92]
                          @ '' lower monthly but more total interest.'') \<rparr>,
    \<lparr> id_q = ''q7'',
      question = ''Which action most quickly improves your credit score?'',
      choices = [''Lower credit utilization'', ''Open many new cards'', ''Only make minimums'', ''Ignore old collections''],
      correctIndex = 0,
      explanation = Some ''Keeping balances low vs. limits improves utilization.'' \<rparr>,
    \<lparr> id_q = ''q8'',
      question = ''You earn $1,200 and spend $900 this week. Savings rate?'',
      choices = [''15%'', ''20%'', ''25%'', ''30%''],
      correctIndex = 2,
      explanation = Some (''Saved $300 '' @ [CHR 0xE2, CHR 0x86, CHR 0x92] @ '' 300/1200 = 25%.'') \<rparr>
  ]"

text \<open>
  \<open>shuffle\<close> copies the array and runs a Fisher-Yates loop from the last index down to
  1. \<open>Math.random()\<close> is the environment: \<open>rnd i\<close> is the number in \<open>[0, 1)\<close> that the
  call made at loop index \<open>i\<close> returns. The destructuring swap reads both cells before
  it writes either.
\<close>

fun shuffle_loop :: "(nat \<Rightarrow> rat) \<Rightarrow> nat \<Rightarrow> 'a list \<Rightarrow> 'a list" where
  "shuffle_loop rnd 0 c = c"
| "shuffle_loop rnd (Suc k) c =
     (let i = Suc k;
          j = nat \<lfloor>rnd i * of_nat (i + 1)\<rfloor>
      in shuffle_loop rnd k (c[i := c ! j, j := c ! i]))"

definition shuffle :: "(nat \<Rightarrow> rat) \<Rightarrow> 'a list \<Rightarrow> 'a list" where
  "shuffle rnd a = shuffle_loop rnd (length a - 1) a"

text \<open>What \<open>Math.random\<close> promises: every draw lies in \<open>[0, 1)\<close>.\<close>

definition unit_draws :: "(nat \<Rightarrow> rat) \<Rightarrow> bool" where
  "unit_draws rnd = (\<forall>i. 0 \<le> rnd i \<and> rnd i < 1)"

text \<open>
  \<open>sampleQuestions\<close>: \<open>rb\<close> supplies the draws of the shuffle of the bank, \<open>rq k\<close> those of
  the shuffle of the choices of the \<open>k\<close>-th picked question.
\<close>

definition remapQuestion :: "(nat \<Rightarrow> rat) \<Rightarrow> UIQuestion \<Rightarrow> UIQuestion" where
  "remapQuestion rnd q =
     (let pairs = zip (choices q) [0..<length (choices q)];
          s = shuffle rnd pairs
      in q\<lparr> choices := map fst s,
             correctIndex := findIndex (\<lambda>p. int (snd p) = correctIndex q) s \<rparr>)"

definition sampleQuestions :: "(nat \<Rightarrow> rat) \<Rightarrow> (nat \<Rightarrow> nat \<Rightarrow> rat) \<Rightarrow> int \<Rightarrow> UIQuestion list" where
  "sampleQuestions rb rq n =
     (let picked = slice0 (shuffle rb bank) n
      in map (\<lambda>(k, q). remapQuestion (rq k) q) (enumerate 0 picked))"

record trivia_state =
  questions :: "UIQuestion list"
  index :: nat
  selected :: "int option"
  checked :: bool
  answers :: "int option list"
  explanations :: "string list"
  result :: "SubmitResult option"
  pressLock :: bool

text \<open>\<open>load\<close> starts a round: it samples six questions and resets the rest.\<close>

definition load :: "(nat \<Rightarrow> rat) \<Rightarrow> (nat \<Rightarrow> nat \<Rightarrow> rat) \<Rightarrow> trivia_state \<Rightarrow> trivia_state" where
  "load rb rq s =
     s\<lparr> questions := sampleQuestions rb rq 6, index := 0, selected := None,
        checked := False, answers := [], explanations := [], result := None \<rparr>"

text \<open>\<open>earlier\<close>: the \<open>reduce\<close> over the questions that counts the recorded answers
  equal to the question's correct index.\<close>

definition earlier :: "UIQuestion list \<Rightarrow> int option list \<Rightarrow> int" where
  "earlier qs ans =
     (\<Sum>i\<leftarrow>[0..<length qs]. if js_get ans i = Some (correctIndex (qs ! i)) then 1 else 0)"

text \<open>
  \<open>onNextOrSubmit\<close>. The press lock is released by a timer 250 ms later
  (\<open>releaseLock\<close>); the effect that depends on \<open>index\<close> clears the selection after the
  index has moved. On the last question the result is computed from the answers recorded
  so far, corrected for the current selection.
\<close>

definition onNextOrSubmit :: "trivia_state \<Rightarrow> trivia_state" where
  "onNextOrSubmit s =
     (if pressLock s then s
      else
        let next = (case selected s of
                      Some v \<Rightarrow> js_set (answers s) (index s) v
                    | None \<Rightarrow> answers s);
            isLast = (int (index s) = int (length (questions s)) - 1)
        in if isLast then
             let total = length (questions s);
                 q = questions s ! index s;
                 sc = earlier (questions s) (answers s)
                      + (if selected s = Some (correctIndex q) then 1 else 0)
                      - (if js_get (answers s) (index s) = Some (correctIndex q) then 1 else 0);
                 acc = (if total \<noteq> 0 then of_int sc / of_nat total else 0)
             in s\<lparr> pressLock := True, answers := next,
                    result := Some \<lparr> score = sc, total = total, accuracy = acc,
                                     xpEarned = sc * 20,
                                     level = max 1 \<lfloor>1 + acc * 10\<rfloor>,
                                     streak = (if acc \<ge> 6 / 10 then 3 else 0),
                                     explanations_r = explanations s \<rparr>,
                    index := index s + 1, selected := None, checked := False \<rparr>
           else s\<lparr> pressLock := True, answers := next,
                   index := index s + 1, selected := None, checked := False \<rparr>)"

definition releaseLock :: "trivia_state \<Rightarrow> trivia_state" where
  "releaseLock s = s\<lparr> pressLock := False \<rparr>"

text \<open>The values the component's \<open>useState\<close> calls start from.\<close>

definition init_trivia :: trivia_state where
  "init_trivia = \<lparr> questions = [], index = 0, selected = None, checked = False,
                     answers = [], explanations = [], result = None, pressLock = False \<rparr>"

text \<open>The number of questions whose recorded answer is the correct index.\<close>

definition correctly_answered :: "UIQuestion list \<Rightarrow> int option list \<Rightarrow> nat" where
  "correctly_answered qs ans =
     length (filter (\<lambda>i. js_get ans i = Some (correctIndex (qs ! i))) [0..<length qs])"

text \<open>Whether the recorded answer to question \<open>i\<close> is the correct index, as 0 or 1.\<close>

definition hit :: "UIQuestion list \<Rightarrow> int option list \<Rightarrow> nat \<Rightarrow> int" where
  "hit qs ans i = (if js_get ans i = Some (correctIndex (qs ! i)) then 1 else 0)"

text \<open>The score, and the accuracy, that the press on the last question computes.\<close>

definition final_score :: "trivia_state \<Rightarrow> int" where
  "final_score s = earlier (questions s) (answers s)
      + (if selected s = Some (correctIndex (questions s ! index s)) then 1 else 0)
      - hit (questions s) (answers s) (index s)"

definition final_accuracy :: "trivia_state \<Rightarrow> rat" where
  "final_accuracy s = of_int (final_score s) / of_nat (length (questions s))"

section \<open>The games hub (\<open>games/index.tsx\<close>): rank tiers\<close>

record tier =
  key :: string
  min_t :: int
  color :: string

definition tiers :: "tier list" where
  "tiers = [
     \<lparr> key = ''Penny Pincher'', min_t = 0, color = ''#B87333'' \<rparr>,
     \<lparr> key = ''Savvy Saver'', min_t = 500, color = ''#CD7F32'' \<rparr>,
     \<lparr> key = ''Budget Master'', min_t = 1500, color = ''#C0C0C0'' \<rparr>,
     \<lparr> key = ''Portfolio Pro'', min_t = 3500, color = ''#FFD700'' \<rparr>,
     \<lparr> key = ''Investment Expert'', min_t = 7000, color = ''#E5E4E2'' \<rparr>,
     \<lparr> key = ''Finance Legend'', min_t = 12000, color = ''#B9F2FF'' \<rparr> ]"

text \<open>\<open>currentTierIndex\<close>: the last tier whose minimum the XP reaches, found as the
  first such tier of the reversed list; tier 0 when there is none.\<close>

definition currentTierIndex :: "int \<Rightarrow> int" where
  "currentTierIndex xp =
     (if findIndex (\<lambda>t. xp \<ge> min_t t) (rev tiers) \<ge> 0
      then int (length tiers) - 1 - findIndex (\<lambda>t. xp \<ge> min_t t) (rev tiers)
      else 0)"

definition currentTier :: "int \<Rightarrow> tier" where
  "currentTier xp = tiers ! nat (currentTierIndex xp)"

definition nextTier :: "int \<Rightarrow> tier option" where
  "nextTier xp =
     (let k = nat (currentTierIndex xp + 1)
      in if k < length tiers then Some (tiers ! k) else None)"

definition toNext :: "int \<Rightarrow> int" where
  "toNext xp = (case nextTier xp of Some t \<Rightarrow> max 0 (min_t t - xp) | None \<Rightarrow> 0)"

section \<open>The categories screen (\<open>games/connections.tsx\<close>)\<close>

record TileCategory =
  id_c :: string
  label_c :: string
  category :: "string option"

record TileAmount =
  id_a :: string
  label_a :: string
  value_a :: "rat option"

record RevealRow =
  category_r :: string
  amount_r :: rat
  label_r :: string

text \<open>The start response. \<open>can_play_c\<close> is \<open>None\<close> when the field is absent.\<close>

record StartResp =
  ok_c :: bool
  can_play_c :: "bool option"
  round_id_c :: "string option"
  tries_remaining_c :: "int option"
  category_tiles :: "TileCategory list option"
  amount_tiles :: "(string + TileAmount) list option"
  categories :: "string list option"
  message_c :: "string option"
  xp_awarded_c :: "int option"
  total_xp_c :: "int option"
  level_c :: "int option"
  streak_c :: "int option"
  error_c :: "string option"

record SubmitResp =
  ok_m :: bool
  correct :: "bool option"
  tries_remaining_m :: "int option"
  round_complete_m :: "bool option"
  xp_earned_m :: "int option"
  total_xp_m :: "int option"
  level_m :: "int option"
  streak_m :: "int option"
  accuracy_m :: "rat option"
  reveal_m :: "RevealRow list option"
  all_correct :: "bool option"
  error_m :: "string option"

text \<open>Decimal rendering of an array index inside a template string.\<close>

fun string_of_nat :: "nat \<Rightarrow> string" where
  "string_of_nat n =
     (if n < 10 then [char_of (48 + n)]
      else string_of_nat (n div 10) @ [char_of (48 + n mod 10)])"

definition is_digit :: "char \<Rightarrow> bool" where
  "is_digit c = (48 \<le> (of_char c :: nat) \<and> (of_char c :: nat) \<le> 57)"

text \<open>The regular-expression class \<open>\w\<close>: ASCII letters, digits and the underscore.\<close>

definition is_word :: "char \<Rightarrow> bool" where
  "is_word c =
     (let n = (of_char c :: nat)
      in (65 \<le> n \<and> n \<le> 90) \<or> (97 \<le> n \<and> n \<le> 122) \<or> is_digit c \<or> n = 95)"

definition toUpperCase :: "char \<Rightarrow> char" where
  "toUpperCase c =
     (let n = (of_char c :: nat) in if 97 \<le> n \<and> n \<le> 122 then char_of (n - 32) else c)"

text \<open>\<open>replace(/\b\w/g, m => m.toUpperCase())\<close>: every word character that starts a
  word is put in upper case.\<close>

fun capitalize_from :: "bool \<Rightarrow> string \<Rightarrow> string" where
  "capitalize_from prev [] = []"
| "capitalize_from prev (c # cs) =
     (if is_word c \<and> \<not> prev then toUpperCase c else c) # capitalize_from (is_word c) cs"

definition capitalize :: "string \<Rightarrow> string" where
  "capitalize s = capitalize_from False s"

text \<open>
  \<open>Number(a.replace(/[^0-9.\-]/g, "")) || 0\<close>. After the replacement only digits, dots
  and minus signs remain; \<open>Number\<close> accepts the empty string (as 0) and an optionally
  negated decimal literal, and yields \<open>NaN\<close> on everything else, which \<open>|| 0\<close> turns
  into 0. The value is kept as the exact decimal.
\<close>

fun digits_value :: "nat \<Rightarrow> string \<Rightarrow> nat" where
  "digits_value acc [] = acc"
| "digits_value acc (c # cs) = digits_value (acc * 10 + ((of_char c :: nat) - 48)) cs"

definition unsigned_number :: "string \<Rightarrow> rat option" where
  "unsigned_number r =
     (let ip = takeWhile is_digit r; rest = dropWhile is_digit r
      in case rest of
           [] \<Rightarrow> (if ip = [] then None else Some (of_nat (digits_value 0 ip)))
         | d # fp \<Rightarrow>
             (if d = CHR ''.'' \<and> list_all is_digit fp \<and> (ip \<noteq> [] \<or> fp \<noteq> [])
              then Some (of_nat (digits_value 0 ip)
                         + of_nat (digits_value 0 fp) / of_nat (10 ^ length fp))
              else None))"

definition Number_clean :: "string \<Rightarrow> rat option" where
  "Number_clean t =
     (case t of
        [] \<Rightarrow> Some 0
      | c # cs \<Rightarrow> (if c = CHR ''-'' then map_option uminus (unsigned_number cs)
                    else unsigned_number t))"

definition amount_value :: "string \<Rightarrow> rat" where
  "amount_value a =
     (case Number_clean (filter (\<lambda>c. is_digit c \<or> c = CHR ''.'' \<or> c = CHR ''-'') a) of
        None \<Rightarrow> 0
      | Some v \<Rightarrow> v)"

text \<open>\<open>normalizePlayable\<close>: the board is cut to five category tiles and five amount
  tiles.\<close>

definition normalizePlayable :: "StartResp \<Rightarrow> TileCategory list \<times> TileAmount list" where
  "normalizePlayable s =
     (let cats = (case category_tiles s of
                    Some ts \<Rightarrow> ts
                  | None \<Rightarrow>
                      map (\<lambda>(i, c). \<lparr> id_c = ''cat_'' @ string_of_nat i,
                                      label_c = capitalize c, category = Some c \<rparr>)
                          (enumerate 0 (case categories s of Some cs \<Rightarrow> cs | None \<Rightarrow> [])));
          amts = (case amount_tiles s of
                    Some ts \<Rightarrow>
                      map (\<lambda>(i, a). case a of
                                       Inl str \<Rightarrow> \<lparr> id_a = ''amt_'' @ string_of_nat i, label_a = str,
                                                    value_a = Some (amount_value str) \<rparr>
                                     | Inr t \<Rightarrow> t)
                          (enumerate 0 ts)
                  | None \<Rightarrow> [])
      in (take 5 cats, take 5 amts))"

datatype feedback = Correct | Wrong

record Pair =
  cat :: TileCategory
  amt :: TileAmount

record FinalStats =
  xp_f :: "int option"
  level_f :: "int option"
  streak_f :: "int option"
  accuracy_f :: "rat option"

record conn_state =
  loading :: bool
  error :: "string option"
  lowMsg :: "string option"
  tries :: int
  canPlay :: bool
  roundId :: "string option"
  categories_s :: "TileCategory list"
  amounts_s :: "TileAmount list"
  selCatId :: "string option"
  selAmtId :: "string option"
  feedback_s :: "feedback option"
  solved :: "Pair list"
  completed :: bool
  reveal :: "RevealRow list option"
  finalStats :: "FinalStats option"

definition init_conn :: conn_state where
  "init_conn = \<lparr> loading = True, error = None, lowMsg = None, tries = 3, canPlay = False,
       roundId = None, categories_s = [], amounts_s = [], selCatId = None, selAmtId = None,
       feedback_s = None, solved = [], completed = False, reveal = None, finalStats = None \<rparr>"

text \<open>\<open>a || b\<close> on an optional string: the first when it is a non-empty string.\<close>

definition or_else :: "string option \<Rightarrow> string \<Rightarrow> string" where
  "or_else a b = (if truthy_str a then the a else b)"

text \<open>
  \<open>startRound\<close>. The argument is what the request produced: \<open>Inl m\<close> when \<open>fetch\<close> or
  \<open>res.json()\<close> threw an error with message \<open>m\<close>, \<open>Inr json\<close> for a parsed body.
\<close>

definition startRound :: "string + StartResp \<Rightarrow> conn_state \<Rightarrow> conn_state" where
  "startRound r s =
     (let s0 = s\<lparr> loading := True, error := None, lowMsg := None, reveal := None,
                   finalStats := None, completed := False, selCatId := None,
                   selAmtId := None, feedback_s := None, solved := [] \<rparr>
      in case r of
           Inl m \<Rightarrow> s0\<lparr> error := Some (or_else (Some m) ''Failed to start round.''),
                         loading := False \<rparr>
         | Inr json \<Rightarrow>
             if \<not> ok_c json then
               s0\<lparr> error := Some (or_else (Some (or_else (error_c json) ''Unexpected response''))
                                          ''Failed to start round.''),
                    loading := False \<rparr>
             else if can_play_c json = Some False then
               s0\<lparr> canPlay := False,
                    lowMsg := Some (or_else (message_c json)
                                ''You received XP for a low-spend period. Come back soon!''),
                    tries := 0, categories_s := [], amounts_s := [], roundId := None,
                    loading := False \<rparr>
             else
               s0\<lparr> canPlay := True,
                    tries := (case tries_remaining_c json of Some t \<Rightarrow> t | None \<Rightarrow> 3),
                    roundId := round_id_c json,
                    categories_s := fst (normalizePlayable json),
                    amounts_s := snd (normalizePlayable json),
                    loading := False \<rparr>)"

text \<open>\<open>Object.fromEntries\<close> over the tiles, read at an id: the last tile with that id.\<close>

definition catMap :: "conn_state \<Rightarrow> string \<Rightarrow> TileCategory option" where
  "catMap s k = (case filter (\<lambda>c. id_c c = k) (categories_s s) of [] \<Rightarrow> None | cs \<Rightarrow> Some (last cs))"

definition amtMap :: "conn_state \<Rightarrow> string \<Rightarrow> TileAmount option" where
  "amtMap s k = (case filter (\<lambda>a. id_a a = k) (amounts_s s) of [] \<Rightarrow> None | as \<Rightarrow> Some (last as))"

definition unsolvedCategories :: "conn_state \<Rightarrow> TileCategory list" where
  "unsolvedCategories s =
     filter (\<lambda>c. \<not> list_ex (\<lambda>p. id_c (cat p) = id_c c) (solved s)) (categories_s s)"

definition unsolvedAmounts :: "conn_state \<Rightarrow> TileAmount list" where
  "unsolvedAmounts s =
     filter (\<lambda>a. \<not> list_ex (\<lambda>p. id_a (amt p) = id_a a) (solved s)) (amounts_s s)"

definition solvedCount :: "conn_state \<Rightarrow> nat" where
  "solvedCount s = length (solved s)"

definition done_c :: "conn_state \<Rightarrow> bool" where
  "done_c s = (completed s \<or> tries s \<le> 0)"

text \<open>
  \<open>onCheck\<close>, up to the timers it starts: 600 ms after a wrong pair and 450 ms after a
  right one \<open>clearFeedback\<close> runs. A thrown request only raises an alert.
\<close>

definition onCheck :: "string + SubmitResp \<Rightarrow> conn_state \<Rightarrow> conn_state" where
  "onCheck r s =
     (if \<not> truthy_str (selCatId s) \<or> \<not> truthy_str (selAmtId s) \<or> feedback_s s \<noteq> None then s
      else case r of
        Inl m \<Rightarrow> s
      | Inr json \<Rightarrow>
          let s1 = (case tries_remaining_m json of
                      Some t \<Rightarrow> s\<lparr> tries := t \<rparr>
                    | None \<Rightarrow> s)
          in if \<not> ok_m json \<or> correct json \<noteq> Some True then s1\<lparr> feedback_s := Some Wrong \<rparr>
             else
               let s2 = (case (catMap s (the (selCatId s)), amtMap s (the (selAmtId s))) of
                           (Some c, Some a) \<Rightarrow> s1\<lparr> solved := solved s1 @ [\<lparr> cat = c, amt = a \<rparr>] \<rparr>
                         | _ \<Rightarrow> s1);
                   s3 = s2\<lparr> feedback_s := Some Correct \<rparr>;
                   nowSolved = solvedCount s + 1;
                   reachedAll = (nowSolved \<ge> 5)
               in if round_complete_m json = Some True \<or> reachedAll then
                    (if round_complete_m json = Some True then
                       s3\<lparr> completed := True, reveal := reveal_m json,
                            finalStats := Some \<lparr> xp_f = xp_earned_m json, level_f = level_m json,
                                                 streak_f = streak_m json,
                                                 accuracy_f = accuracy_m json \<rparr> \<rparr>
                     else s3\<lparr> completed := True \<rparr>)
                  else s3)"

definition clearFeedback :: "conn_state \<Rightarrow> conn_state" where
  "clearFeedback s = s\<lparr> feedback_s := None, selCatId := None, selAmtId := None \<rparr>"

text \<open>What the screen renders: the error card, the low-data card, the board.\<close>

definition shows_error :: "conn_state \<Rightarrow> bool" where
  "shows_error s = (truthy_str (error s) \<and> \<not> loading s)"

definition shows_low :: "conn_state \<Rightarrow> bool" where
  "shows_low s = (\<not> loading s \<and> \<not> truthy_str (error s) \<and> truthy_str (lowMsg s))"

definition shows_board :: "conn_state \<Rightarrow> bool" where
  "shows_board s = (\<not> loading s \<and> \<not> truthy_str (error s) \<and> canPlay s)"

text \<open>The presses that the board offers while the round is not done: a tile of either
  unsolved pool toggles the selection, and Check is disabled without both selections.\<close>

definition pressCategory :: "string \<Rightarrow> conn_state \<Rightarrow> conn_state" where
  "pressCategory k s =
     (if shows_board s \<and> \<not> done_c s \<and> k \<in> set (map id_c (unsolvedCategories s))
      then s\<lparr> selCatId := (if selCatId s = Some k then None else Some k) \<rparr>
      else s)"

definition pressAmount :: "string \<Rightarrow> conn_state \<Rightarrow> conn_state" where
  "pressAmount k s =
     (if shows_board s \<and> \<not> done_c s \<and> k \<in> set (map id_a (unsolvedAmounts s))
      then s\<lparr> selAmtId := (if selAmtId s = Some k then None else Some k) \<rparr>
      else s)"

definition pressCheck :: "string + SubmitResp \<Rightarrow> conn_state \<Rightarrow> conn_state" where
  "pressCheck r s =
     (if shows_board s \<and> \<not> done_c s \<and> truthy_str (selCatId s) \<and> truthy_str (selAmtId s)
      then onCheck r s else s)"

section \<open>The quiz screen (\<open>games/trivia.tsx\<close>) and its requests\<close>

text \<open>
  A request meets an environment: the response is complete after some milliseconds, or
  \<open>fetch\<close> rejects after some milliseconds, or nothing ever comes back. A call, in turn,
  either settles at some time with a result or stays pending for ever. Time is counted in
  milliseconds from the moment of the call.
\<close>

record 'a json_obj =
  error_j :: "string option"
  message_j :: "string option"
  payload :: "'a option"

datatype 'a body = Text_empty | Text_json "'a json_obj" | Text_bad string

record 'a http_response =
  status :: nat
  statusText :: string
  body_of :: "'a body"

datatype 'a outcome = Responds nat "'a http_response" | Rejects nat string | Silent

datatype 'r settled = Pending | Settled nat 'r

definition res_ok :: "'a http_response \<Rightarrow> bool" where
  "res_ok res = (200 \<le> status res \<and> status res \<le> 299)"

text \<open>When a request has come back before a given time.\<close>

definition arrives_before :: "'a outcome \<Rightarrow> nat \<Rightarrow> bool" where
  "arrives_before env T =
     (case env of Responds t res \<Rightarrow> t < T | Rejects t m \<Rightarrow> t < T | Silent \<Rightarrow> False)"

text \<open>The message of the error that replaces an \<open>AbortError\<close>; the dash is U+2014.\<close>

definition timeout_message :: string where
  "timeout_message = ''Request timed out '' @ [CHR 0xE2, CHR 0x80, CHR 0x94]
                     @ '' check connection or server load.''"

text \<open>The body of \<open>fetchJson\<close>'s \<open>try\<close> once the response is there: \<open>JSON.parse\<close> may
  throw; a status outside 2xx throws the server's error text or the status line.\<close>

definition fetchJson_result :: "'a http_response \<Rightarrow> string + 'a json_obj option" where
  "fetchJson_result res =
     (case body_of res of
        Text_bad m \<Rightarrow> Inl m
      | Text_empty \<Rightarrow>
          (if \<not> res_ok res
           then Inl (''HTTP '' @ string_of_nat (status res) @ '' '' @ statusText res)
           else Inr None)
      | Text_json d \<Rightarrow>
          (if \<not> res_ok res
           then Inl (if truthy_str (error_j d) then the (error_j d)
                     else if truthy_str (message_j d) then the (message_j d)
                     else ''HTTP '' @ string_of_nat (status res) @ '' '' @ statusText res)
           else Inr (Some d)))"

text \<open>
  \<open>fetchJson\<close>: a timer aborts the request \<open>timeoutMs\<close> milliseconds after the call; what
  has not arrived by then is rejected with an \<open>AbortError\<close>, which the \<open>catch\<close> turns into
  the time-out error.
\<close>

definition fetchJson :: "'a outcome \<Rightarrow> nat \<Rightarrow> (string + 'a json_obj option) settled" where
  "fetchJson env timeoutMs =
     (case env of
        Silent \<Rightarrow> Settled timeoutMs (Inl timeout_message)
      | Rejects t m \<Rightarrow>
          (if t < timeoutMs then Settled t (Inl m)
           else Settled timeoutMs (Inl timeout_message))
      | Responds t res \<Rightarrow>
          (if t < timeoutMs then Settled t (fetchJson_result res)
           else Settled timeoutMs (Inl timeout_message)))"

text \<open>The three requests of the quiz pass no \<open>timeoutMs\<close>: the default, 15000, applies.
  Without a signed-in user \<open>getFirebaseToken\<close> throws before any request is made.\<close>

definition startNewQuiz :: "string option \<Rightarrow> 'a outcome \<Rightarrow> (string + 'a json_obj option) settled" where
  "startNewQuiz token env =
     (case token of
        None \<Rightarrow> Settled 0 (Inl ''Not authenticated'')
      | Some tk \<Rightarrow> fetchJson env 15000)"

definition answerQuestion :: "string option \<Rightarrow> 'a outcome \<Rightarrow> (string + 'a json_obj option) settled" where
  "answerQuestion token env =
     (case token of
        None \<Rightarrow> Settled 0 (Inl ''Not authenticated'')
      | Some tk \<Rightarrow> fetchJson env 15000)"

definition completeQuiz :: "string option \<Rightarrow> 'a outcome \<Rightarrow> (string + 'a json_obj option) settled" where
  "completeQuiz token env =
     (case token of
        None \<Rightarrow> Settled 0 (Inl ''Not authenticated'')
      | Some tk \<Rightarrow> fetchJson env 15000)"

text \<open>
  \<open>post\<close> of \<open>services/plaidApi.tsx\<close>: no timer and no abort signal. A body that does not
  parse is logged and read as the empty object.
\<close>

definition empty_obj :: "'a json_obj" where
  "empty_obj = \<lparr> error_j = None, message_j = None, payload = None \<rparr>"

definition post_result :: "'a http_response \<Rightarrow> string + 'a json_obj" where
  "post_result res =
     (let data = (case body_of res of Text_json d \<Rightarrow> d | Text_empty \<Rightarrow> empty_obj
                  | Text_bad m \<Rightarrow> empty_obj)
      in if \<not> res_ok res
         then Inl (if truthy_str (error_j data) then the (error_j data)
                   else ''Request failed: '' @ string_of_nat (status res) @ '' '' @ statusText res)
         else Inr data)"

definition post :: "string option \<Rightarrow> 'a outcome \<Rightarrow> (string + 'a json_obj) settled" where
  "post token env =
     (case token of
        None \<Rightarrow> Settled 0 (Inl ''User not authenticated. Please sign in first.'')
      | Some tk \<Rightarrow>
          (case env of
             Silent \<Rightarrow> Pending
           | Rejects t m \<Rightarrow> Settled t (Inl m)
           | Responds t res \<Rightarrow> Settled t (post_result res)))"

record Question =
  id_n :: string
  type_n :: string
  question_n :: string
  choices_n :: "string list"

record NewSetResponse =
  ok_n :: bool
  can_play_n :: bool
  difficulty_n :: "string option"
  questions_n :: "Question list option"
  instructions_n :: "string option"
  insufficient_data_n :: "bool option"
  message_n :: "string option"
  xp_awarded_n :: "int option"
  total_xp_n :: "int option"
  level_n :: "int option"
  streak_n :: "int option"

record CompleteResponse =
  ok_k :: bool
  score_k :: int
  total_k :: int
  accuracy_k :: rat
  xp_earned_k :: int
  total_xp_k :: int
  level_k :: int
  streak_k :: int
  streak_maintained_k :: bool
  difficulty_before :: string
  difficulty_after :: string
  difficulty_changed :: bool

record FeedbackState =
  isCorrect :: bool
  correctIndex_fb :: int
  explanation_fb :: string

record LowData =
  message_l :: string
  xp_awarded_l :: int
  level_l :: int
  streak_l :: int

text \<open>The state of the quiz screen; \<open>refreshes\<close> counts the calls of the XP context's
  \<open>refresh\<close>.\<close>

record quiz_state =
  questions_z :: "Question list"
  currentIndex :: nat
  difficulty :: string
  selectedIndex :: "int option"
  feedbackState :: "FeedbackState option"
  loading_z :: bool
  submitting :: bool
  error_z :: "string option"
  finalResults :: "CompleteResponse option"
  lowDataMessage :: "LowData option"
  refreshes :: nat

definition init_quiz :: quiz_state where
  "init_quiz = \<lparr> questions_z = [], currentIndex = 0, difficulty = ''basic'',
       selectedIndex = None, feedbackState = None, loading_z = True, submitting = False,
       error_z = None, finalResults = None, lowDataMessage = None, refreshes = 0 \<rparr>"

text \<open>\<open>a || d\<close> on an optional number: the first when it is a number other than 0.\<close>

definition num_or :: "int option \<Rightarrow> int \<Rightarrow> int" where
  "num_or a d = (if truthy_num a then the a else d)"

text \<open>
  \<open>loadQuiz\<close>. The argument is what \<open>startNewQuiz\<close> produced: \<open>Inl m\<close> for a thrown error
  with message \<open>m\<close>, \<open>Inr res\<close> for the parsed response. Every \<open>throw\<close> inside the \<open>try\<close>
  lands in the \<open>catch\<close>, which stores the message as the screen's error.
\<close>

definition loadQuiz :: "string + NewSetResponse \<Rightarrow> quiz_state \<Rightarrow> quiz_state" where
  "loadQuiz r s =
     (let s0 = s\<lparr> loading_z := True, error_z := None, currentIndex := 0,
                   selectedIndex := None, feedbackState := None, finalResults := None,
                   lowDataMessage := None \<rparr>;
          fail = (\<lambda>m. s0\<lparr> error_z := Some (or_else (Some m) ''Failed to load quiz''),
                          loading_z := False \<rparr>)
      in case r of
           Inl m \<Rightarrow> fail m
         | Inr res \<Rightarrow>
             if \<not> ok_n res then fail ''Failed to start quiz''
             else if \<not> can_play_n res then
               (if insufficient_data_n res = Some True \<and> truthy_str (message_n res) then
                  s0\<lparr> lowDataMessage :=
                         Some \<lparr> message_l = the (message_n res),
                                xp_awarded_l = num_or (xp_awarded_n res) 0,
                                level_l = num_or (level_n res) 1,
                                streak_l = num_or (streak_n res) 0 \<rparr>,
                       refreshes := (if (case xp_awarded_n res of Some x \<Rightarrow> x | None \<Rightarrow> 0) > 0
                                     then refreshes s0 + 1 else refreshes s0),
                       loading_z := False \<rparr>
                else fail (or_else (message_n res) ''Cannot play quiz at this time''))
             else if (case questions_n res of None \<Rightarrow> True | Some qs \<Rightarrow> qs = []) then
               fail ''No questions returned''
             else
               s0\<lparr> questions_z := the (questions_n res),
                    difficulty := or_else (difficulty_n res) ''basic'',
                    loading_z := False \<rparr>)"

text \<open>Which of its five views the quiz screen renders, in the order of the \<open>return\<close>s.\<close>

datatype quiz_view = LoadingView | ErrorView | LowDataView | ResultsView | QuestionView

definition currentQuestion :: "quiz_state \<Rightarrow> Question option" where
  "currentQuestion s =
     (if currentIndex s < length (questions_z s) then Some (questions_z s ! currentIndex s)
      else None)"

definition quiz_view_of :: "quiz_state \<Rightarrow> quiz_view" where
  "quiz_view_of s =
     (if loading_z s then LoadingView
      else if truthy_str (error_z s) \<and> currentQuestion s = None \<and> lowDataMessage s = None
              \<and> finalResults s = None then ErrorView
      else if lowDataMessage s \<noteq> None then LowDataView
      else if finalResults s \<noteq> None then ResultsView
      else QuestionView)"

section \<open>The detective screen (\<open>games/spend-detective.tsx\<close>)\<close>

record Tx =
  id_t :: string
  date_t :: string
  merchant_name :: string
  amount_t :: "rat + string"
  category_t :: string
  logo_url :: "string option"

record RevealItem =
  found_by_user :: bool
  reasons :: "string list"

record Summary =
  correct_y :: int
  missed :: int
  false_positives :: int

record DetStats =
  xp_d :: "int option"
  total_xp_d :: "int option"
  level_d :: "int option"
  streak_d :: "int option"
  accuracy_d :: "rat option"
  streak_maintained_d :: "bool option"
  summary_d :: "Summary option"
  feedback_d :: "string option"

record DetStart =
  ok_b :: bool
  error_b :: "string option"
  insufficient_data_b :: "bool option"
  message_b :: "string option"
  xp_awarded_b :: "int option"
  level_b :: "int option"
  streak_b :: "int option"
  transactions_b :: "Tx list option"
  round_b :: "Tx list option"
  round_id_b :: "string option"
  tries_remaining_b :: "int option"

text \<open>The response to a guess. A numeric field is \<open>None\<close> when it is absent or not a
  number.\<close>

record GuessResp =
  tries_remaining_g :: "int option"
  total_correct :: "int option"
  new_correct :: "int option"
  total_anomalies :: "int option"
  round_complete_g :: bool
  reveal_g :: "RevealItem list option"
  xp_earned_g :: "int option"
  total_xp_g :: "int option"
  level_g :: "int option"
  streak_g :: "int option"
  accuracy_g :: "rat option"
  streak_maintained_g :: "bool option"
  summary_g :: "Summary option"
  feedback_g :: "string option"

text \<open>The state of the screen. \<open>locked\<close> holds the ids that the record maps to
  \<open>true\<close>.\<close>

record det_state =
  loading_d :: bool
  error_d :: "string option"
  canPlay_d :: bool
  lowMsg_d :: "string option"
  tries_d :: int
  transactions :: "Tx list"
  roundId_d :: "string option"
  selectedId :: "string option"
  locked :: "string set"
  totalAnomalies :: "int option"
  totalCorrect :: int
  completed_d :: bool
  reveal_d :: "RevealItem list option"
  finalStats_d :: "DetStats option"

definition init_det :: det_state where
  "init_det = \<lparr> loading_d = True, error_d = None, canPlay_d = False, lowMsg_d = None,
       tries_d = 3, transactions = [], roundId_d = None, selectedId = None, locked = {},
       totalAnomalies = None, totalCorrect = 0, completed_d = False, reveal_d = None,
       finalStats_d = None \<rparr>"

definition startRound_d :: "string + DetStart \<Rightarrow> det_state \<Rightarrow> det_state" where
  "startRound_d r s =
     (let s0 = s\<lparr> loading_d := True, error_d := None, selectedId := None, locked := {},
                   completed_d := False, reveal_d := None, finalStats_d := None,
                   totalAnomalies := None, totalCorrect := 0 \<rparr>
      in case r of
           Inl m \<Rightarrow> s0\<lparr> error_d := Some (or_else (Some m) ''Failed to start round.''),
                         loading_d := False \<rparr>
         | Inr json \<Rightarrow>
             if \<not> ok_b json then
               s0\<lparr> error_d := Some (or_else (Some (or_else (error_b json) ''Unexpected response.''))
                                            ''Failed to start round.''),
                    loading_d := False \<rparr>
             else if insufficient_data_b json = Some True then
               s0\<lparr> canPlay_d := False,
                    lowMsg_d := Some (or_else (message_b json) ''Not enough data yet.''),
                    tries_d := 0, transactions := [], roundId_d := None,
                    finalStats_d :=
                      Some \<lparr> xp_d = Some (case xp_awarded_b json of Some x \<Rightarrow> x | None \<Rightarrow> 0),
                             total_xp_d = None, level_d = level_b json, streak_d = streak_b json,
                             accuracy_d = None, streak_maintained_d = None, summary_d = None,
                             feedback_d = None \<rparr>,
                    loading_d := False \<rparr>
             else
               s0\<lparr> canPlay_d := True, lowMsg_d := None,
                    transactions := (case transactions_b json of
                                       Some ts \<Rightarrow> ts
                                     | None \<Rightarrow> (case round_b json of Some ts \<Rightarrow> ts | None \<Rightarrow> [])),
                    roundId_d := round_id_b json,
                    tries_d := (case tries_remaining_b json of Some t \<Rightarrow> t | None \<Rightarrow> 3),
                    loading_d := False \<rparr>)"

definition foundCount :: "det_state \<Rightarrow> int" where
  "foundCount s = totalCorrect s"

text \<open>
  JavaScript numbers are IEEE doubles. \<open>to_double x\<close> is the double nearest to the
  rational \<open>x\<close>: a significand of 53 bits at the binary exponent of \<open>x\<close>, a tie going to
  the even significand. The exponent is left unbounded (no overflow, no subnormal
  numbers); the quotient that is rounded below is at least 1.
\<close>

fun bit_length :: "nat \<Rightarrow> nat" where
  "bit_length n = (if n = 0 then 0 else Suc (bit_length (n div 2)))"

text \<open>The binary exponent of a positive rational: the \<open>e\<close> with \<open>2^e \<le> x < 2^(e+1)\<close>.\<close>

definition exponent_of :: "rat \<Rightarrow> int" where
  "exponent_of x =
     (if 1 \<le> x then int (bit_length (nat \<lfloor>x\<rfloor>)) - 1
      else - int (bit_length (nat (\<lceil>1 / x\<rceil> - 1))))"

definition pow2 :: "int \<Rightarrow> rat" where
  "pow2 e = (if 0 \<le> e then 2 ^ nat e else 1 / 2 ^ nat (- e))"

definition round_even :: "rat \<Rightarrow> int" where
  "round_even y =
     (let f = \<lfloor>y\<rfloor>; r = y - of_int f
      in if r < 1 / 2 then f else if 1 / 2 < r then f + 1
         else if even f then f else f + 1)"

definition to_double :: "rat \<Rightarrow> rat" where
  "to_double x =
     (if x = 0 then 0
      else let a = \<bar>x\<bar>;
               u = pow2 (exponent_of a - 52);
               m = of_int (round_even (a / u)) * u
           in if x < 0 then - m else m)"

text \<open>
  \<open>x.toFixed(2)\<close>, as the decimal that the string denotes: the multiple of 1/100 nearest
  to the exact value of the double \<open>x\<close>, the larger one in magnitude on a tie; a number of
  magnitude \<open>10^21\<close> or more is printed in full. The unary plus in front of it reads the
  string back as a double.
\<close>

definition toFixed2 :: "rat \<Rightarrow> rat" where
  "toFixed2 x =
     (if 10 ^ 21 \<le> \<bar>x\<bar> then x
      else if x < 0 then - (of_int \<lfloor>(- x) * 100 + 1 / 2\<rfloor> / 100)
      else of_int \<lfloor>x * 100 + 1 / 2\<rfloor> / 100)"

definition maybeFinishLocally :: "GuessResp \<Rightarrow> int \<Rightarrow> int option \<Rightarrow> det_state \<Rightarrow> det_state" where
  "maybeFinishLocally j nextCorrect nextTotalAnoms s =
     (if round_complete_g j then s
      else case nextTotalAnoms of
        None \<Rightarrow> s
      | Some n \<Rightarrow>
          if nextCorrect \<ge> n then
            s\<lparr> reveal_d := Some (case reveal_g j of Some rv \<Rightarrow> rv | None \<Rightarrow> []),
                finalStats_d :=
                  Some \<lparr> xp_d = Some (case xp_earned_g j of Some x \<Rightarrow> x | None \<Rightarrow> nextCorrect * 20),
                         total_xp_d = total_xp_g j, level_d = level_g j, streak_d = streak_g j,
                         accuracy_d =
                           (case accuracy_g j of
                              Some a \<Rightarrow> Some a
                            | None \<Rightarrow>
                                (if n > 0
                                 then Some (to_double (toFixed2
                                              (to_double (of_int nextCorrect / of_int n))))
                                 else None)),
                         streak_maintained_d = streak_maintained_g j, summary_d = summary_g j,
                         feedback_d = None \<rparr>,
                completed_d := True \<rparr>
          else s)"

text \<open>
  \<open>onSubmit\<close>. The argument is what \<open>postJsonWithFallback\<close> produced: \<open>Inl m\<close> for a thrown
  error (the handler only raises an alert), \<open>Inr json\<close> for the parsed response.
\<close>

definition onSubmit :: "string + GuessResp \<Rightarrow> det_state \<Rightarrow> det_state" where
  "onSubmit r s =
     (if \<not> truthy_str (selectedId s) then s
      else case r of
        Inl m \<Rightarrow> s
      | Inr json \<Rightarrow>
          let wasCorrect = (case new_correct json of Some k \<Rightarrow> k \<noteq> 0 \<and> k > 0 | None \<Rightarrow> False);
              s1 = s\<lparr> tries_d := (case tries_remaining_g json of
                                     Some t \<Rightarrow> min (tries_d s) t
                                   | None \<Rightarrow> tries_d s),
                      totalCorrect := (case total_correct json of
                                         Some c \<Rightarrow> c
                                       | None \<Rightarrow> (if wasCorrect
                                                   then totalCorrect s + the (new_correct json)
                                                   else totalCorrect s)),
                      totalAnomalies := (case total_anomalies json of
                                           Some n \<Rightarrow> Some n
                                         | None \<Rightarrow> totalAnomalies s),
                      locked := (if wasCorrect then insert (the (selectedId s)) (locked s)
                                 else locked s),
                      selectedId := None \<rparr>
          in if round_complete_g json then
               s1\<lparr> reveal_d := Some (case reveal_g json of Some rv \<Rightarrow> rv | None \<Rightarrow> []),
                    finalStats_d :=
                      Some \<lparr> xp_d = xp_earned_g json, total_xp_d = total_xp_g json,
                             level_d = level_g json, streak_d = streak_g json,
                             accuracy_d = accuracy_g json,
                             streak_maintained_d = streak_maintained_g json,
                             summary_d = summary_g json, feedback_d = feedback_g json \<rparr>,
                    completed_d := True \<rparr>
             else
               let nextCorrect = (case total_correct json of
                                    Some c \<Rightarrow> c
                                  | None \<Rightarrow> foundCount s + (if wasCorrect then 1 else 0));
                   nextTotal = (case total_anomalies json of
                                  Some n \<Rightarrow> Some n
                                | None \<Rightarrow> totalAnomalies s)
               in maybeFinishLocally json nextCorrect nextTotal s1)"

text \<open>What the screen renders, and the two presses that the game view offers: a press
  on a transaction card and the Submit button, disabled without a selection.\<close>

definition shows_error_d :: "det_state \<Rightarrow> bool" where
  "shows_error_d s = (truthy_str (error_d s) \<and> \<not> loading_d s)"

definition shows_low_d :: "det_state \<Rightarrow> bool" where
  "shows_low_d s = (\<not> loading_d s \<and> \<not> truthy_str (error_d s) \<and> truthy_str (lowMsg_d s))"

definition shows_game_d :: "det_state \<Rightarrow> bool" where
  "shows_game_d s =
     (\<not> loading_d s \<and> \<not> truthy_str (error_d s) \<and> canPlay_d s \<and> \<not> completed_d s)"

definition shows_completed_d :: "det_state \<Rightarrow> bool" where
  "shows_completed_d s = (\<not> loading_d s \<and> \<not> truthy_str (error_d s) \<and> completed_d s)"

definition pressTx :: "string \<Rightarrow> det_state \<Rightarrow> det_state" where
  "pressTx t s =
     (if shows_game_d s \<and> t \<in> set (map id_t (transactions s)) then
        (if t \<notin> locked s
         then s\<lparr> selectedId := (if selectedId s = Some t then None else Some t) \<rparr>
         else s)
      else s)"

definition pressSubmit :: "string + GuessResp \<Rightarrow> det_state \<Rightarrow> det_state" where
  "pressSubmit r s =
     (if shows_game_d s \<and> truthy_str (selectedId s) then onSubmit r s else s)"

text \<open>The \<open>tries_remaining\<close> that a request outcome reports, if any.\<close>

definition reported_d :: "string + GuessResp \<Rightarrow> int option" where
  "reported_d r = (case r of Inl m \<Rightarrow> None | Inr j \<Rightarrow> tries_remaining_g j)"

definition reported_c :: "string + SubmitResp \<Rightarrow> int option" where
  "reported_c r = (case r of Inl m \<Rightarrow> None | Inr j \<Rightarrow> tries_remaining_m j)"

section \<open>Sample inputs\<close>

text \<open>Concrete environments, responses and states on which the definitions above are
  run.\<close>

text \<open>Two fixed sequences of draws, used to run the code on concrete inputs.\<close>

definition draws_half :: "nat \<Rightarrow> rat" where
  "draws_half i = 1 / 2"

definition draws_third :: "nat \<Rightarrow> nat \<Rightarrow> rat" where
  "draws_third k i = 1 / 3"

text \<open>A round on its fifth and last question, the first four answered correctly and
  the correct choice selected.\<close>

definition last_question_state :: trivia_state where
  "last_question_state =
     init_trivia\<lparr> questions := take 5 bank, index := 4, selected := Some 1, checked := True,
                  answers := [Some 1, Some 0, Some 2, Some 1] \<rparr>"


text \<open>A round as \<open>load\<close> starts it, on its sixth and last question, the first five
  answered correctly and the correct choice selected.\<close>

definition loaded_round :: trivia_state where
  "loaded_round = load draws_half draws_third init_trivia"

definition sixth_question_state :: trivia_state where
  "sixth_question_state =
     loaded_round\<lparr> index := 5,
                   selected := Some (correctIndex (questions loaded_round ! 5)),
                   checked := True,
                   answers := map (\<lambda>q. Some (correctIndex q)) (take 5 (questions loaded_round)) \<rparr>"

text \<open>A choice of a question other than its correct one.\<close>

definition missed :: "UIQuestion \<Rightarrow> int" where
  "missed q = (correctIndex q + 1) mod 4"

text \<open>The same loaded round on its last question with the first three questions
  answered correctly, the next two answered wrongly and a wrong choice selected.\<close>

definition half_round_state :: trivia_state where
  "half_round_state =
     loaded_round\<lparr> index := 5,
                   selected := Some (missed (questions loaded_round ! 5)),
                   checked := True,
                   answers := map (\<lambda>q. Some (correctIndex q)) (take 3 (questions loaded_round))
                              @ map (\<lambda>q. Some (missed q))
                                  (drop 3 (take 5 (questions loaded_round))) \<rparr>"

text \<open>A round of three questions on its last question, all answered correctly.\<close>

definition three_question_state :: trivia_state where
  "three_question_state =
     init_trivia\<lparr> questions := take 3 bank, index := 2, selected := Some 2, checked := True,
                  answers := [Some 1, Some 0] \<rparr>"

text \<open>Sample inputs of the detective screen: a response with every field absent, a
  playable start with three transactions, the round after a press on the first card, and
  a response that reports four correct guesses of three anomalies.\<close>

definition no_guess :: GuessResp where
  "no_guess = \<lparr> tries_remaining_g = None, total_correct = None, new_correct = None,
       total_anomalies = None, round_complete_g = False, reveal_g = None, xp_earned_g = None,
       total_xp_g = None, level_g = None, streak_g = None, accuracy_g = None,
       streak_maintained_g = None, summary_g = None, feedback_g = None \<rparr>"

definition demo_tx :: "string \<Rightarrow> Tx" where
  "demo_tx i = \<lparr> id_t = i, date_t = ''2025-01-15'', merchant_name = ''Cafe'',
                 amount_t = Inl 12, category_t = ''Food'', logo_url = None \<rparr>"

definition det_demo_start :: DetStart where
  "det_demo_start = \<lparr> ok_b = True, error_b = None, insufficient_data_b = None,
       message_b = None, xp_awarded_b = None, level_b = None, streak_b = None,
       transactions_b = Some [demo_tx ''t1'', demo_tx ''t2'', demo_tx ''t3''],
       round_b = None, round_id_b = Some ''r1'', tries_remaining_b = Some 3 \<rparr>"

definition det_round :: det_state where
  "det_round = pressTx ''t1'' (startRound_d (Inr det_demo_start) init_det)"

definition over_guess :: GuessResp where
  "over_guess = no_guess\<lparr> total_correct := Some 4, total_anomalies := Some 3 \<rparr>"

text \<open>Sample inputs of the categories screen: a playable start given by category names
  and amount strings, the round after a press on the first tile of each pool, and
  responses to a match.\<close>

definition conn_demo_start :: StartResp where
  "conn_demo_start = \<lparr> ok_c = True, can_play_c = Some True, round_id_c = Some ''r7'',
       tries_remaining_c = Some 3, category_tiles = None,
       amount_tiles = Some [Inl ''$120.50'', Inl ''$900'', Inl ''$45'', Inl ''$60'', Inl ''$300''],
       categories = Some [''food'', ''rent'', ''gas'', ''fun'', ''travel''],
       message_c = None, xp_awarded_c = None, total_xp_c = None, level_c = None,
       streak_c = None, error_c = None \<rparr>"

definition conn_round :: conn_state where
  "conn_round = pressAmount ''amt_0'' (pressCategory ''cat_0''
                  (startRound (Inr conn_demo_start) init_conn))"

definition food_tile :: TileCategory where
  "food_tile = \<lparr> id_c = ''cat_0'', label_c = ''Food'', category = Some ''food'' \<rparr>"

definition first_amount :: TileAmount where
  "first_amount = \<lparr> id_a = ''amt_0'', label_a = ''$120.50'', value_a = Some (241 / 2) \<rparr>"

definition no_match :: SubmitResp where
  "no_match = \<lparr> ok_m = True, correct = Some False, tries_remaining_m = None,
       round_complete_m = None, xp_earned_m = None, total_xp_m = None, level_m = None,
       streak_m = None, accuracy_m = None, reveal_m = None, all_correct = None,
       error_m = None \<rparr>"

definition a_match :: SubmitResp where
  "a_match = no_match\<lparr> correct := Some True, tries_remaining_m := Some 3 \<rparr>"

text \<open>A playable start whose first amount tile is an object with the id that the
  second entry, a string, is given by its position; and the round after a press on the
  first category tile and on an amount tile of that id.\<close>

definition conn_dup_start :: StartResp where
  "conn_dup_start = conn_demo_start\<lparr> amount_tiles :=
       Some [Inr \<lparr> id_a = ''amt_1'', label_a = ''$120.50'', value_a = Some (241 / 2) \<rparr>,
             Inl ''$900'', Inl ''$45'', Inl ''$60'', Inl ''$300''] \<rparr>"

definition dup_round :: conn_state where
  "dup_round = pressAmount ''amt_1'' (pressCategory ''cat_0''
                 (startRound (Inr conn_dup_start) init_conn))"

definition raised_tries :: SubmitResp where
  "raised_tries = no_match\<lparr> tries_remaining_m := Some 5 \<rparr>"

definition negative_tries :: GuessResp where
  "negative_tries = no_guess\<lparr> tries_remaining_g := Some (- 1) \<rparr>"

text \<open>Responses that report two tries left.\<close>

definition lower_tries :: GuessResp where
  "lower_tries = no_guess\<lparr> tries_remaining_g := Some 2 \<rparr>"

definition lower_tries_c :: SubmitResp where
  "lower_tries_c = no_match\<lparr> tries_remaining_m := Some 2 \<rparr>"

text \<open>A response that reports the second find of two anomalies.\<close>

definition last_find :: GuessResp where
  "last_find = no_guess\<lparr> new_correct := Some 1, total_correct := Some 2,
                          total_anomalies := Some 2 \<rparr>"

text \<open>Two responses that complete a round and report the same total XP with different
  levels.\<close>

definition done_level_one :: GuessResp where
  "done_level_one = no_guess\<lparr> round_complete_g := True, total_xp_g := Some 100,
                               level_g := Some 1 \<rparr>"

definition done_level_seven :: GuessResp where
  "done_level_seven = done_level_one\<lparr> level_g := Some 7 \<rparr>"

text \<open>A response that reports two new finds of two anomalies and no running total.\<close>

definition double_find :: GuessResp where
  "double_find = no_guess\<lparr> new_correct := Some 2, total_anomalies := Some 2 \<rparr>"

text \<open>Sample start responses: insufficient data without a message, and with one.\<close>

definition low_no_message :: NewSetResponse where
  "low_no_message = \<lparr> ok_n = True, can_play_n = False, difficulty_n = None,
       questions_n = None, instructions_n = None, insufficient_data_n = Some True,
       message_n = None, xp_awarded_n = Some 50, total_xp_n = Some 250, level_n = Some 2,
       streak_n = Some 1 \<rparr>"

definition low_with_message :: NewSetResponse where
  "low_with_message = low_no_message\<lparr> message_n := Some ''Not enough transactions yet.'' \<rparr>"

definition conn_low_start :: StartResp where
  "conn_low_start = \<lparr> ok_c = True, can_play_c = Some False, round_id_c = None,
       tries_remaining_c = None, category_tiles = None, amount_tiles = None,
       categories = None, message_c = None, xp_awarded_c = Some 50, total_xp_c = Some 250,
       level_c = Some 2, streak_c = Some 1, error_c = None \<rparr>"

definition det_low_start :: DetStart where
  "det_low_start = det_demo_start\<lparr> insufficient_data_b := Some True, transactions_b := None,
       xp_awarded_b := Some 50 \<rparr>"

text \<open>A response with status 200 and an empty JSON object as its body.\<close>

definition ok_response :: "unit http_response" where
  "ok_response = \<lparr> status = 200, statusText = ''OK'', body_of = Text_json empty_obj \<rparr>"

definition silent_server :: "unit outcome" where
  "silent_server = Silent"

section \<open>Properties of the local trivia screen\<close>

lemma length_shuffle_loop: "length (shuffle_loop rnd k c) = length c"
  by (induction k arbitrary: c) (simp_all add: Let_def)

lemma length_shuffle: "length (shuffle rnd a) = length a"
  by (simp add: shuffle_def length_shuffle_loop)

lemma draw_index_le:
  assumes "0 \<le> (r::rat)" "r < 1"
  shows "nat \<lfloor>r * of_nat (i + 1)\<rfloor> \<le> i"
proof -
  have "r * of_nat (i + 1) < of_nat (i + 1)"
    using assms by (simp add: mult_less_cancel_right2)
  then have "\<lfloor>r * of_nat (i + 1)\<rfloor> < int (i + 1)"
    by (simp add: floor_less_iff)
  then show ?thesis by simp
qed

lemma mset_shuffle_loop:
  "unit_draws rnd \<Longrightarrow> k < length c \<Longrightarrow> mset (shuffle_loop rnd k c) = mset c"
proof (induction k arbitrary: c)
  case 0
  then show ?case by simp
next
  case (Suc k)
  define j where "j = nat \<lfloor>rnd (Suc k) * of_nat (Suc k + 1)\<rfloor>"
  have "j \<le> Suc k"
    unfolding j_def using Suc.prems(1) draw_index_le[of "rnd (Suc k)" "Suc k"]
    by (simp add: unit_draws_def)
  then have jlt: "j < length c" using Suc.prems(2) by simp
  have sw: "mset (c[Suc k := c ! j, j := c ! Suc k]) = mset c"
    using mset_swap[OF jlt Suc.prems(2)] by simp
  have "mset (shuffle_loop rnd k (c[Suc k := c ! j, j := c ! Suc k])) = mset (c[Suc k := c ! j, j := c ! Suc k])"
    using Suc.IH[of "c[Suc k := c ! j, j := c ! Suc k]"] Suc.prems by simp
  then show ?case using sw by (simp add: Let_def j_def)
qed

lemma mset_shuffle: "unit_draws rnd \<Longrightarrow> mset (shuffle rnd a) = mset a"
proof (cases a)
  case Nil
  then show ?thesis by (simp add: shuffle_def)
next
  case (Cons x xs)
  assume "unit_draws rnd"
  then show ?thesis using Cons by (simp add: shuffle_def mset_shuffle_loop)
qed

lemma findIndex_from_found:
  "\<exists>x\<in>set xs. P x \<Longrightarrow>
     k \<le> findIndex_from k P xs \<and> nat (findIndex_from k P xs - k) < length xs
     \<and> P (xs ! nat (findIndex_from k P xs - k))"
proof (induction xs arbitrary: k)
  case Nil
  then show ?case by simp
next
  case (Cons x xs)
  show ?case
  proof (cases "P x")
    case True
    then show ?thesis by simp
  next
    case False
    then have ex: "\<exists>x\<in>set xs. P x" using Cons.prems by simp
    from Cons.IH[OF ex, of "k + 1"] 
    have a: "k + 1 \<le> findIndex_from (k + 1) P xs"
      and b: "nat (findIndex_from (k + 1) P xs - (k + 1)) < length xs"
      and c: "P (xs ! nat (findIndex_from (k + 1) P xs - (k + 1)))" by simp_all
    have "nat (findIndex_from (k + 1) P xs - k) = Suc (nat (findIndex_from (k + 1) P xs - (k + 1)))"
      using a by simp
    then show ?thesis using False a b c by simp
  qed
qed

lemma findIndex_found:
  assumes "\<exists>x\<in>set xs. P x"
  shows "0 \<le> findIndex P xs" "nat (findIndex P xs) < length xs" "P (xs ! nat (findIndex P xs))"
  using findIndex_from_found[OF assms, of 0] by (simp_all add: findIndex_def)

lemma zip_upt_mem: "i < length c \<Longrightarrow> (c ! i, i) \<in> set (zip c [0..<length c])"
  by (force simp: set_zip)

lemma zip_upt_fst: "p \<in> set (zip c [0..<length c]) \<Longrightarrow> fst p = c ! snd p"
  by (auto simp: set_zip)

lemma remapQuestion_props:
  assumes ud: "unit_draws rnd"
    and lo: "0 \<le> correctIndex q" and hi: "nat (correctIndex q) < length (choices q)"
  shows "mset (choices (remapQuestion rnd q)) = mset (choices q)"
    and "0 \<le> correctIndex (remapQuestion rnd q)"
    and "nat (correctIndex (remapQuestion rnd q)) < length (choices (remapQuestion rnd q))"
    and "choices (remapQuestion rnd q) ! nat (correctIndex (remapQuestion rnd q))
           = choices q ! nat (correctIndex q)"
proof -
  define pairs where "pairs = zip (choices q) [0..<length (choices q)]"
  define s where "s = shuffle rnd pairs"
  define P where "P = (\<lambda>p::string \<times> nat. int (snd p) = correctIndex q)"
  have ms: "mset s = mset pairs" unfolding s_def by (rule mset_shuffle[OF ud])
  then have sets: "set s = set pairs" by (rule mset_eq_setD)
  have ch: "choices (remapQuestion rnd q) = map fst s"
    and ci: "correctIndex (remapQuestion rnd q) = findIndex P s"
    by (simp_all add: remapQuestion_def Let_def s_def pairs_def P_def)
  have "image_mset fst (mset s) = image_mset fst (mset pairs)"
    using ms by simp
  then have "mset (map fst s) = mset (map fst pairs)"
    by (simp only: mset_map)
  then show "mset (choices (remapQuestion rnd q)) = mset (choices q)"
    by (simp add: ch pairs_def)
  have "(choices q ! nat (correctIndex q), nat (correctIndex q)) \<in> set pairs"
    unfolding pairs_def using hi by (rule zip_upt_mem)
  moreover have "P (choices q ! nat (correctIndex q), nat (correctIndex q))"
    using lo by (simp add: P_def)
  ultimately have ex: "\<exists>p\<in>set s. P p" using sets by blast
  note fi = findIndex_found[OF ex]
  show "0 \<le> correctIndex (remapQuestion rnd q)" using fi(1) ci by simp
  show "nat (correctIndex (remapQuestion rnd q)) < length (choices (remapQuestion rnd q))"
    using fi(2) ci ch by simp
  have "s ! nat (findIndex P s) \<in> set s" by (rule nth_mem[OF fi(2)])
  then have "s ! nat (findIndex P s) \<in> set pairs" by (simp only: sets)
  then have "fst (s ! nat (findIndex P s)) = choices q ! snd (s ! nat (findIndex P s))"
    unfolding pairs_def by (rule zip_upt_fst)
  moreover have "snd (s ! nat (findIndex P s)) = nat (correctIndex q)"
    using fi(3) by (simp add: P_def)
  ultimately show "choices (remapQuestion rnd q) ! nat (correctIndex (remapQuestion rnd q))
           = choices q ! nat (correctIndex q)"
    using fi(2) by (simp add: ch ci)
qed

lemma remapQuestion_fields:
  "id_q (remapQuestion rnd q) = id_q q" "question (remapQuestion rnd q) = question q"
  "explanation (remapQuestion rnd q) = explanation q"
  by (simp_all add: remapQuestion_def Let_def)

lemma bank_ids: "map id_q bank = [''q1'', ''q2'', ''q3'', ''q4'', ''q5'', ''q6'', ''q7'', ''q8'']"
  by (simp add: bank_def)

lemma bank_distinct: "distinct (map id_q bank)"
  by (simp add: bank_ids)

lemma bank_wf: "\<forall>b\<in>set bank. 0 \<le> correctIndex b \<and> nat (correctIndex b) < length (choices b)"
  by (simp add: bank_def)

lemma length_bank: "length bank = 8" by (simp add: bank_def)


lemma shuffle_bank_ids:
  assumes "unit_draws rb"
  shows "distinct (map id_q (shuffle rb bank))" "set (shuffle rb bank) = set bank"
proof -
  have ms: "mset (shuffle rb bank) = mset bank" by (rule mset_shuffle[OF assms])
  then have "image_mset id_q (mset (shuffle rb bank)) = image_mset id_q (mset bank)" by simp
  then have "mset (map id_q (shuffle rb bank)) = mset (map id_q bank)" by (simp only: mset_map)
  then show "distinct (map id_q (shuffle rb bank))"
    using bank_distinct by (metis mset_eq_imp_distinct_iff)
  show "set (shuffle rb bank) = set bank" using ms by (rule mset_eq_setD)
qed

lemma sampleQuestions_ids:
  "map id_q (sampleQuestions rb rq n) = map id_q (slice0 (shuffle rb bank) n)"
proof -
  have "map id_q (map (\<lambda>(k, q). remapQuestion (rq k) q) (enumerate 0 xs)) = map id_q xs" for xs
  proof -
    have "map id_q (map (\<lambda>(k, q). remapQuestion (rq k) q) (enumerate m xs)) = map id_q xs" for m
      by (induction xs arbitrary: m) (simp_all add: remapQuestion_fields)
    then show ?thesis .
  qed
  then show ?thesis by (simp add: sampleQuestions_def Let_def)
qed

lemma length_sampleQuestions:
  "length (sampleQuestions rb rq n) = length (slice0 (shuffle rb bank) n)"
  by (simp add: sampleQuestions_def Let_def)

lemma sampleQuestions_elem:
  assumes "q' \<in> set (sampleQuestions rb rq n)"
  shows "\<exists>k q. q \<in> set (slice0 (shuffle rb bank) n) \<and> q' = remapQuestion (rq k) q"
proof -
  from assms obtain k q where "(k, q) \<in> set (enumerate 0 (slice0 (shuffle rb bank) n))"
    and "q' = remapQuestion (rq k) q"
    by (auto simp: sampleQuestions_def Let_def)
  moreover from this(1) have "q \<in> set (slice0 (shuffle rb bank) n)"
    by (auto simp: in_set_enumerate_eq)
  ultimately show ?thesis by blast
qed

text \<open>
  Claim C10. When every draw of \<open>Math.random\<close> lies in \<open>[0, 1)\<close> and
  \<open>0 \<le> n \<le> length bank\<close>, \<open>sampleQuestions\<close> returns exactly \<open>n\<close> questions with
  pairwise distinct ids, each of them a question of the bank whose choices have been
  permuted and whose \<open>correctIndex\<close> points, in range, at the same answer text as in
  the bank.
\<close>

theorem sampleQuestions_distinct_permuted:
  assumes rb: "unit_draws rb" and rq: "\<forall>k. unit_draws (rq k)"
    and n0: "0 \<le> n" and nb: "n \<le> int (length bank)"
  shows "length (sampleQuestions rb rq n) = nat n
       \<and> distinct (map id_q (sampleQuestions rb rq n))
       \<and> (\<forall>q'\<in>set (sampleQuestions rb rq n). \<exists>b\<in>set bank.
             id_q q' = id_q b \<and> question q' = question b \<and> explanation q' = explanation b
             \<and> mset (choices q') = mset (choices b)
             \<and> 0 \<le> correctIndex q' \<and> nat (correctIndex q') < length (choices q')
             \<and> choices q' ! nat (correctIndex q') = choices b ! nat (correctIndex b))"
proof (intro conjI ballI)
  have sl: "slice0 (shuffle rb bank) n = take (nat n) (shuffle rb bank)"
    using n0 by (simp add: slice0_def)
  show "length (sampleQuestions rb rq n) = nat n"
    using nb n0 by (simp add: length_sampleQuestions sl length_shuffle)
  show "distinct (map id_q (sampleQuestions rb rq n))"
    using shuffle_bank_ids(1)[OF rb]
    by (simp add: sampleQuestions_ids sl take_map[symmetric])
  fix q' assume "q' \<in> set (sampleQuestions rb rq n)"
  then obtain k q where q: "q \<in> set (slice0 (shuffle rb bank) n)"
    and q': "q' = remapQuestion (rq k) q"
    using sampleQuestions_elem by blast
  from q have "q \<in> set (shuffle rb bank)" unfolding sl by (rule in_set_takeD)
  then have qb: "q \<in> set bank" using shuffle_bank_ids(2)[OF rb] by simp
  then have wf: "0 \<le> correctIndex q" "nat (correctIndex q) < length (choices q)"
    using bank_wf by simp_all
  have ud: "unit_draws (rq k)" using rq by simp
  note rp = remapQuestion_props[OF ud wf]
  show "\<exists>b\<in>set bank.
             id_q q' = id_q b \<and> question q' = question b \<and> explanation q' = explanation b
             \<and> mset (choices q') = mset (choices b)
             \<and> 0 \<le> correctIndex q' \<and> nat (correctIndex q') < length (choices q')
             \<and> choices q' ! nat (correctIndex q') = choices b ! nat (correctIndex b)"
    using qb rp by (intro bexI[of _ q]) (simp_all add: q' remapQuestion_fields)
qed

theorem sampleQuestions_distinct_permuted_witness:
  "unit_draws draws_half \<and> (\<forall>k. unit_draws (draws_third k)) \<and> (0::int) \<le> 3
   \<and> 3 \<le> int (length bank)
   \<and> length (sampleQuestions draws_half draws_third 3) = 3
   \<and> distinct (map id_q (sampleQuestions draws_half draws_third 3))"
proof -
  have h1: "unit_draws draws_half" by (simp add: unit_draws_def draws_half_def)
  have h2: "\<forall>k. unit_draws (draws_third k)" by (simp add: unit_draws_def draws_third_def)
  have h3: "(0::int) \<le> 3" by simp
  have h4: "3 \<le> int (length bank)" by (simp add: length_bank)
  note t = sampleQuestions_distinct_permuted[OF h1 h2 h3 h4]
  have c1: "length (sampleQuestions draws_half draws_third 3) = nat 3"
    by (rule conjunct1[OF t])
  have c2: "distinct (map id_q (sampleQuestions draws_half draws_third 3))"
    by (rule conjunct1[OF conjunct2[OF t]])
  have c1': "length (sampleQuestions draws_half draws_third 3) = 3"
    using c1 by simp
  show ?thesis
    by (intro conjI h1 h2 h3 h4 c1' c2)
qed

text \<open>
  Claim C6 (amended). A start of the local trivia round loads exactly six questions,
  whatever the draws: \<open>load\<close> asks \<open>sampleQuestions\<close> for 6 of the 8 bank entries.
\<close>

theorem load_six_questions: "length (questions (load rb rq s)) = 6"
  by (simp add: load_def length_sampleQuestions slice0_def length_shuffle length_bank)

text \<open>The count is not five.\<close>

theorem load_five_questions_counterexample:
  "length (questions (load draws_half draws_third init_trivia)) \<noteq> 5"
  by (simp add: load_def length_sampleQuestions slice0_def length_shuffle length_bank)

subsection \<open>The score of a round\<close>

lemma js_get_set: "js_get (js_set xs i v) k = (if k = i then Some v else js_get xs k)"
  by (auto simp: js_get_def js_set_def nth_append nth_Cons')

lemma earlier_hit: "earlier qs ans = (\<Sum>i\<leftarrow>[0..<length qs]. hit qs ans i)"
  by (simp add: earlier_def hit_def)

lemma correctly_answered_hit:
  "int (correctly_answered qs ans) = (\<Sum>i\<leftarrow>[0..<length qs]. hit qs ans i)"
proof -
  have "int (length (filter P xs)) = (\<Sum>i\<leftarrow>xs. if P i then 1 else 0)" for P and xs :: "nat list"
    by (induction xs) simp_all
  then show ?thesis by (simp add: correctly_answered_def hit_def)
qed

lemma hit_sum_bounds:
  "0 \<le> (\<Sum>i\<leftarrow>xs. hit qs ans i) \<and> (\<Sum>i\<leftarrow>xs. hit qs ans i) \<le> int (length xs)"
  by (induction xs) (auto simp: hit_def)

lemma hit_sum_cong:
  "(\<And>i. i \<in> set xs \<Longrightarrow> hit qs a i = hit qs b i)
    \<Longrightarrow> (\<Sum>i\<leftarrow>xs. hit qs a i) = (\<Sum>i\<leftarrow>xs. hit qs b i)"
  by (induction xs) simp_all

lemma last_score:
  assumes len: "length qs = Suc m"
  shows "earlier qs ans + (if Some v = Some (correctIndex (qs ! m)) then 1 else 0) - hit qs ans m
         = int (correctly_answered qs (js_set ans m v))"
proof -
  have e: "earlier qs ans = (\<Sum>i\<leftarrow>[0..<m]. hit qs ans i) + hit qs ans m"
    by (simp add: earlier_hit len)
  have c: "int (correctly_answered qs (js_set ans m v))
           = (\<Sum>i\<leftarrow>[0..<m]. hit qs (js_set ans m v) i) + hit qs (js_set ans m v) m"
    by (simp add: correctly_answered_hit len)
  have "(\<Sum>i\<leftarrow>[0..<m]. hit qs (js_set ans m v) i) = (\<Sum>i\<leftarrow>[0..<m]. hit qs ans i)"
    by (rule hit_sum_cong) (simp add: hit_def js_get_set)
  moreover have "hit qs (js_set ans m v) m = (if Some v = Some (correctIndex (qs ! m)) then 1 else 0)"
    by (simp add: hit_def js_get_set)
  ultimately show ?thesis using e c by simp
qed

lemma last_score_bounds:
  assumes len: "length qs = Suc m"
  shows "0 \<le> earlier qs ans + (if sel = Some (correctIndex (qs ! m)) then 1 else 0) - hit qs ans m"
    and "earlier qs ans + (if sel = Some (correctIndex (qs ! m)) then 1 else 0) - hit qs ans m
          \<le> int (length qs)"
proof -
  have e: "earlier qs ans = (\<Sum>i\<leftarrow>[0..<m]. hit qs ans i) + hit qs ans m"
    by (simp add: earlier_hit len)
  have b: "0 \<le> (\<Sum>i\<leftarrow>[0..<m]. hit qs ans i)" "(\<Sum>i\<leftarrow>[0..<m]. hit qs ans i) \<le> int m"
    using hit_sum_bounds[where xs="[0..<m]" and qs=qs and ans=ans] by simp_all
  show "0 \<le> earlier qs ans + (if sel = Some (correctIndex (qs ! m)) then 1 else 0) - hit qs ans m"
    using e b by simp
  show "earlier qs ans + (if sel = Some (correctIndex (qs ! m)) then 1 else 0) - hit qs ans m
          \<le> int (length qs)"
    using e b len by simp
qed

lemma onNextOrSubmit_last:
  assumes "\<not> pressLock s" "index s + 1 = length (questions s)"
  shows "result (onNextOrSubmit s) =
           Some \<lparr> score = final_score s, total = length (questions s),
                  accuracy = final_accuracy s,
                  xpEarned = final_score s * 20,
                  level = max 1 \<lfloor>1 + final_accuracy s * 10\<rfloor>,
                  streak = (if final_accuracy s \<ge> 6 / 10 then 3 else 0),
                  explanations_r = explanations s \<rparr>"
    and "answers (onNextOrSubmit s) =
           (case selected s of Some v \<Rightarrow> js_set (answers s) (index s) v | None \<Rightarrow> answers s)"
proof -
  have il: "int (index s) = int (length (questions s)) - 1" using assms(2) by simp
  have ne: "questions s \<noteq> []" using assms(2) by auto
  show "result (onNextOrSubmit s) =
           Some \<lparr> score = final_score s, total = length (questions s),
                  accuracy = final_accuracy s,
                  xpEarned = final_score s * 20,
                  level = max 1 \<lfloor>1 + final_accuracy s * 10\<rfloor>,
                  streak = (if final_accuracy s \<ge> 6 / 10 then 3 else 0),
                  explanations_r = explanations s \<rparr>"
    unfolding onNextOrSubmit_def Let_def using assms(1) il ne
    by (simp add: final_score_def final_accuracy_def hit_def)
  show "answers (onNextOrSubmit s) =
           (case selected s of Some v \<Rightarrow> js_set (answers s) (index s) v | None \<Rightarrow> answers s)"
    unfolding onNextOrSubmit_def Let_def using assms(1) il
    by (simp split: option.split)
qed

lemma final_score_bounds:
  assumes "index s + 1 = length (questions s)"
  shows "0 \<le> final_score s" "final_score s \<le> int (length (questions s))"
  using last_score_bounds[of "questions s" "index s" "answers s" "selected s"] assms
  by (simp_all add: final_score_def)

lemma final_accuracy_bounds:
  assumes "index s + 1 = length (questions s)"
  shows "0 \<le> final_accuracy s" "final_accuracy s \<le> 1"
proof -
  have n: "0 < length (questions s)" using assms by linarith
  note b = final_score_bounds[OF assms]
  show "0 \<le> final_accuracy s" using b(1) by (simp add: final_accuracy_def)
  have "rat_of_int (final_score s) \<le> of_int (int (length (questions s)))"
    using b(2) by (simp only: of_int_le_iff)
  then show "final_accuracy s \<le> 1" using n by (simp add: final_accuracy_def divide_le_eq)
qed

lemma final_score_counts:
  assumes "index s + 1 = length (questions s)" "selected s = Some v"
  shows "final_score s = int (correctly_answered (questions s) (js_set (answers s) (index s) v))"
  using last_score[of "questions s" "index s" "answers s" v] assms
  by (simp add: final_score_def)

lemma correctly_answered_all:
  "correctly_answered qs (map (\<lambda>q. Some (correctIndex q)) qs) = length qs"
proof -
  have "filter (\<lambda>i. js_get (map (\<lambda>q. Some (correctIndex q)) qs) i = Some (correctIndex (qs ! i)))
          [0..<length qs] = [0..<length qs]"
    by (rule filter_True) (simp add: js_get_def)
  then show ?thesis by (simp add: correctly_answered_def)
qed

lemma take_snoc_all: "length xs = Suc n \<Longrightarrow> take n xs @ [xs ! n] = xs"
  using take_Suc_conv_app_nth[of n xs] by simp



section \<open>Accuracy of a completed round\<close>

lemma det_round_eq:
  "det_round = \<lparr> loading_d = False, error_d = None, canPlay_d = True, lowMsg_d = None,
       tries_d = 3, transactions = [demo_tx ''t1'', demo_tx ''t2'', demo_tx ''t3''],
       roundId_d = Some ''r1'', selectedId = Some ''t1'', locked = {},
       totalAnomalies = None, totalCorrect = 0, completed_d = False, reveal_d = None,
       finalStats_d = None \<rparr>"
  by (simp add: det_round_def pressTx_def startRound_d_def det_demo_start_def init_det_def
      shows_game_d_def truthy_str_def demo_tx_def Let_def)

lemma floor_rat_numeral: "\<lfloor>numeral a / numeral b :: rat\<rfloor> = numeral a div numeral b"
  by (metis floor_divide_of_int_eq of_int_numeral)

declare bit_length.simps [simp del]

lemma bit_length_bounds:
  "0 < n \<Longrightarrow> 2 ^ (bit_length n - 1) \<le> n \<and> n < 2 ^ bit_length n"
proof (induction n rule: bit_length.induct)
  case (1 n)
  show ?case
  proof (cases "n div 2 = 0")
    case True
    then have "n = 1" using "1.prems" by presburger
    then show ?thesis by (simp add: bit_length.simps)
  next
    case False
    then have h: "0 < n div 2" by simp
    have ih: "2 ^ (bit_length (n div 2) - 1) \<le> n div 2 \<and> n div 2 < 2 ^ bit_length (n div 2)"
      using "1.IH" "1.prems" h by simp
    have bl: "bit_length n = Suc (bit_length (n div 2))"
      using "1.prems" by (subst bit_length.simps) simp
    have pos: "0 < bit_length (n div 2)" using h by (subst bit_length.simps) simp
    then obtain k where k: "bit_length (n div 2) = Suc k" by (cases "bit_length (n div 2)") auto
    have a: "2 ^ k \<le> n div 2" and b: "n div 2 < 2 ^ Suc k" using ih k by simp_all
    have "2 * 2 ^ k \<le> n" using a by linarith
    moreover have "n < 2 * 2 ^ Suc k" using b by linarith
    ultimately show ?thesis by (simp add: bl k)
  qed
qed

lemma pow2_powi: "pow2 e = 2 powi e"
  by (simp add: pow2_def power_int_def field_simps)

lemma exponent_of_bounds:
  assumes "1 \<le> x"
  shows "0 \<le> exponent_of x" "pow2 (exponent_of x) \<le> x" "x < pow2 (exponent_of x + 1)"
proof -
  define n where "n = nat \<lfloor>x\<rfloor>"
  have fl: "1 \<le> \<lfloor>x\<rfloor>" using assms by simp
  then have n0: "0 < n" by (simp add: n_def)
  note b = bit_length_bounds[OF n0]
  have e: "exponent_of x = int (bit_length n) - 1" using assms by (simp add: exponent_of_def n_def)
  have bp: "0 < bit_length n" using n0 by (subst bit_length.simps) simp
  then obtain k where k: "bit_length n = Suc k" by (cases "bit_length n") auto
  have ek: "exponent_of x = int k" using e k by simp
  show "0 \<le> exponent_of x" using ek by simp
  have nx: "of_nat n \<le> x" using fl by (simp add: n_def of_nat_nat of_int_floor_le)
  have "x < of_int \<lfloor>x\<rfloor> + 1" by linarith
  then have xn: "x < of_nat n + 1" using fl by (simp add: n_def of_nat_nat)
  have p: "(2::rat) ^ k \<le> of_nat n" using b k by (metis diff_Suc_1 of_nat_le_iff of_nat_numeral of_nat_power)
  have "(2::rat) ^ k \<le> x" by (rule order_trans[OF p nx])
  then show "pow2 (exponent_of x) \<le> x" by (simp add: ek pow2_def)
  have "n + 1 \<le> 2 ^ Suc k" using b k by simp
  then have "(of_nat (n + 1) :: rat) \<le> of_nat (2 ^ Suc k)" by (simp only: of_nat_le_iff)
  then have q: "(of_nat n :: rat) + 1 \<le> 2 ^ Suc k" by simp
  have "x < 2 ^ Suc k" by (rule less_le_trans[OF xn q])
  then show "x < pow2 (exponent_of x + 1)" by (simp add: ek pow2_def nat_add_distrib)
qed

lemma round_even_near: "\<bar>of_int (round_even y) - y\<bar> \<le> 1 / 2"
proof -
  have "of_int \<lfloor>y\<rfloor> \<le> y" "y < of_int \<lfloor>y\<rfloor> + 1" by linarith+
  then show ?thesis by (auto simp: round_even_def Let_def)
qed

lemma round_even_ge: "of_int N \<le> y \<Longrightarrow> N \<le> round_even y"
proof -
  assume "of_int N \<le> y"
  then have "N \<le> \<lfloor>y\<rfloor>" by (simp add: le_floor_iff)
  then show ?thesis by (auto simp: round_even_def Let_def)
qed

lemma to_double_ge1:
  assumes "1 \<le> x"
  shows "1 \<le> to_double x" "\<bar>to_double x - x\<bar> \<le> x / 2 ^ 53"
proof -
  define e where "e = exponent_of x"
  define u where "u = pow2 (e - 52)"
  note eb = exponent_of_bounds[OF assms, folded e_def]
  have upos: "0 < u" by (simp add: u_def pow2_powi)
  have ue: "u * 2 ^ 52 = pow2 e"
    by (simp add: u_def pow2_powi power_int_diff)
  have td: "to_double x = of_int (round_even (x / u)) * u"
    using assms by (simp add: to_double_def Let_def u_def e_def)
  have "pow2 e / u = 2 ^ 52" using ue upos by (simp add: field_simps)
  then have "(2::rat) ^ 52 \<le> x / u" using eb(2) upos by (metis divide_right_mono less_imp_le)
  then have "of_int (2 ^ 52) \<le> x / u" by simp
  then have "2 ^ 52 \<le> round_even (x / u)" by (rule round_even_ge)
  then have "(2::rat) ^ 52 \<le> of_int (round_even (x / u))"
    by (metis of_int_le_iff of_int_numeral of_int_power)
  then have "2 ^ 52 * u \<le> of_int (round_even (x / u)) * u" using upos by simp
  then have "pow2 e \<le> to_double x" using ue td by (simp add: mult.commute)
  moreover have "1 \<le> pow2 e" using eb(1) by (simp add: pow2_def)
  ultimately show "1 \<le> to_double x" by simp
  have "\<bar>of_int (round_even (x / u)) - x / u\<bar> \<le> 1 / 2" by (rule round_even_near)
  then have "\<bar>of_int (round_even (x / u)) - x / u\<bar> * u \<le> 1 / 2 * u"
    using upos by (simp only: mult_le_cancel_right_pos)
  moreover have "\<bar>of_int (round_even (x / u)) - x / u\<bar> * u = \<bar>to_double x - x\<bar>"
    using upos by (simp add: td abs_mult[symmetric, of _ u, simplified] field_simps flip: abs_mult_pos)
  ultimately have "\<bar>to_double x - x\<bar> \<le> u / 2" by simp
  moreover have "u / 2 = pow2 e / 2 ^ 53" using ue by (simp add: field_simps)
  moreover have "pow2 e / 2 ^ 53 \<le> x / 2 ^ 53" using eb(2) by (simp add: divide_right_mono)
  ultimately show "\<bar>to_double x - x\<bar> \<le> x / 2 ^ 53" by simp
qed


lemma bit_length_one: "bit_length (Suc 0) = Suc 0"
  by (simp add: bit_length.simps[of "Suc 0"] bit_length.simps[of 0])

lemma exponent_of_unit: "1 \<le> x \<Longrightarrow> x < 2 \<Longrightarrow> exponent_of x = 0"
proof -
  assume a: "1 \<le> x" "x < 2"
  then have "\<lfloor>x\<rfloor> = 1" by (intro floor_unique) simp_all
  then show ?thesis using a by (simp add: exponent_of_def bit_length_one)
qed

lemma pow2_m52: "pow2 (- 52) = 1 / 4503599627370496"
  by (simp add: pow2_def)

lemma to_double_unit:
  assumes "1 \<le> x" "x < 2"
  shows "to_double x = of_int (round_even (x * 4503599627370496)) / 4503599627370496"
  using assms by (simp add: to_double_def exponent_of_unit pow2_m52 Let_def)

lemma round_even_value:
  assumes "of_int k - 1 / 2 < y" "y < of_int k + 1 / 2"
  shows "round_even y = k"
proof -
  have f: "of_int \<lfloor>y\<rfloor> \<le> y" "y < of_int \<lfloor>y\<rfloor> + 1" by linarith+
  have "\<lfloor>y\<rfloor> = k \<or> \<lfloor>y\<rfloor> = k - 1"
  proof -
    have "of_int (k - 1) \<le> y" using assms(1) by simp
    then have lo: "k - 1 \<le> \<lfloor>y\<rfloor>" by (simp only: le_floor_iff)
    have "y < of_int (k + 1)" using assms(2) by simp
    then have hi: "\<lfloor>y\<rfloor> < k + 1" by (simp only: floor_less_iff)
    show ?thesis using lo hi by linarith
  qed
  then show ?thesis
  proof
    assume e: "\<lfloor>y\<rfloor> = k"
    then have "y - of_int \<lfloor>y\<rfloor> < 1 / 2" using assms by simp
    then show ?thesis using e by (simp add: round_even_def Let_def)
  next
    assume e: "\<lfloor>y\<rfloor> = k - 1"
    then have "1 / 2 < y - of_int \<lfloor>y\<rfloor>" using assms by simp
    then show ?thesis using e by (simp add: round_even_def Let_def)
  qed
qed

lemma to_double_4_3: "to_double (4 / 3) = 6004799503160661 / 4503599627370496"
proof -
  have "round_even (4 / 3 * 4503599627370496) = 6004799503160661"
    by (rule round_even_value) simp_all
  then show ?thesis using to_double_unit[of "4 / 3"] by simp
qed

lemma to_double_41_40: "to_double (41 / 40) = 4616189618054758 / 4503599627370496"
proof -
  have "round_even (41 / 40 * 4503599627370496) = 4616189618054758"
    by (rule round_even_value) simp_all
  then show ?thesis using to_double_unit[of "41 / 40"] by simp
qed

lemma toFixed2_4_3: "toFixed2 (to_double (4 / 3)) = 133 / 100"
  by (simp add: to_double_4_3 toFixed2_def floor_rat_numeral)

lemma toFixed2_41_40: "toFixed2 (to_double (41 / 40)) = 51 / 50"
  by (simp add: to_double_41_40 toFixed2_def floor_rat_numeral)

lemma to_double_one: "to_double 1 = 1"
proof -
  have "round_even (1 * 4503599627370496) = 4503599627370496"
    by (rule round_even_value) simp_all
  then show ?thesis using to_double_unit[of 1] by simp
qed

lemma toFixed2_one: "toFixed2 1 = 1"
  by (simp add: toFixed2_def floor_rat_numeral)

lemma toFixed2_near:
  assumes "1 \<le> d" "d < 10 ^ 21"
  shows "1 \<le> toFixed2 d" "\<bar>toFixed2 d - d\<bar> \<le> 1 / 200"
proof -
  define y where "y = d * 100 + 1 / 2"
  have f1: "of_int \<lfloor>y\<rfloor> \<le> y" by (rule of_int_floor_le)
  have f2: "y < of_int \<lfloor>y\<rfloor> + 1" by linarith
  have t: "toFixed2 d = of_int \<lfloor>y\<rfloor> / 100" using assms by (simp add: toFixed2_def y_def)
  have "of_int 100 \<le> y" using assms(1) by (simp add: y_def)
  then have "100 \<le> \<lfloor>y\<rfloor>" by (simp only: le_floor_iff)
  then have "(100::rat) \<le> of_int \<lfloor>y\<rfloor>" by (metis of_int_le_iff of_int_numeral)
  then show "1 \<le> toFixed2 d" unfolding t by simp
  have u: "of_int \<lfloor>y\<rfloor> / 100 - d \<le> 1 / 200" using f1 by (simp add: y_def field_simps)
  have l: "- (1 / 200) \<le> of_int \<lfloor>y\<rfloor> / 100 - d" using f2 by (simp add: y_def field_simps)
  show "\<bar>toFixed2 d - d\<bar> \<le> 1 / 200" unfolding t using u l by linarith
qed

lemma fallback_accuracy_bounds:
  assumes "1 \<le> q"
  shows "1 \<le> to_double (toFixed2 (to_double q))"
    and "\<bar>to_double (toFixed2 (to_double q)) - q\<bar> \<le> 1 / 200 + q / 2 ^ 51"
proof -
  define d where "d = to_double q"
  define f where "f = toFixed2 d"
  have d1: "1 \<le> d" and dq: "\<bar>d - q\<bar> \<le> q / 2 ^ 53"
    using to_double_ge1[OF assms] by (simp_all add: d_def)
  have f1: "1 \<le> f" and fd: "\<bar>f - d\<bar> \<le> 1 / 200"
  proof -
    show "1 \<le> f"
    proof (cases "d < 10 ^ 21")
      case True
      then show ?thesis using toFixed2_near(1)[OF d1] by (simp add: f_def)
    next
      case False
      then show ?thesis using d1 by (simp add: f_def toFixed2_def)
    qed
    show "\<bar>f - d\<bar> \<le> 1 / 200"
    proof (cases "d < 10 ^ 21")
      case True
      then show ?thesis using toFixed2_near(2)[OF d1] by (simp add: f_def)
    next
      case False
      then show ?thesis using d1 by (simp add: f_def toFixed2_def)
    qed
  qed
  have a1: "1 \<le> to_double f" and af: "\<bar>to_double f - f\<bar> \<le> f / 2 ^ 53"
    using to_double_ge1[OF f1] by simp_all
  show "1 \<le> to_double (toFixed2 (to_double q))" using a1 by (simp add: f_def d_def)
  have p: "(2::rat) ^ 53 = 9007199254740992" by simp
  have dq1: "d - q \<le> q / 9007199254740992" and dq2: "q - d \<le> q / 9007199254740992"
    using dq unfolding p abs_le_iff by linarith+
  have fd1: "f - d \<le> 1 / 200" and fd2: "d - f \<le> 1 / 200"
    using fd unfolding abs_le_iff by linarith+
  have af1: "to_double f - f \<le> f / 9007199254740992"
    and af2: "f - to_double f \<le> f / 9007199254740992"
    using af unfolding p abs_le_iff by linarith+
  have up: "to_double f - q \<le> 1 / 200 + q / 2251799813685248"
    using dq1 dq2 fd1 fd2 af1 af2 assms by linarith
  have lo: "q - to_double f \<le> 1 / 200 + q / 2251799813685248"
    using dq1 dq2 fd1 fd2 af1 af2 assms by linarith
  have "\<bar>to_double f - q\<bar> \<le> 1 / 200 + q / 2 ^ 51"
    using up lo by (simp add: abs_le_iff)
  then show "\<bar>to_double (toFixed2 (to_double q)) - q\<bar> \<le> 1 / 200 + q / 2 ^ 51"
    by (simp add: f_def d_def)
qed


lemma maybeFinishLocally_fallback:
  assumes "\<not> round_complete_g j" "accuracy_g j = None" "n \<le> c"
  shows "completed_d (maybeFinishLocally j c (Some n) d)"
    and "0 < n \<Longrightarrow> map_option accuracy_d (finalStats_d (maybeFinishLocally j c (Some n) d))
           = Some (Some (to_double (toFixed2 (to_double (of_int c / of_int n)))))"
    and "n \<le> 0 \<Longrightarrow> map_option accuracy_d (finalStats_d (maybeFinishLocally j c (Some n) d))
           = Some None"
  using assms by (simp_all add: maybeFinishLocally_def)

text \<open>
  Claim C2 (amended). The result of the local quiz has \<open>0 \<le> score \<le> total\<close> and
  \<open>accuracy = score / total\<close>, within \<open>[0, 1]\<close>. The detective screen completes a round
  locally when the correct count has reached the anomaly total; if the response carries
  no accuracy, the accuracy it stores is the quotient of the two, as a double, rounded to
  two decimals by \<open>toFixed(2)\<close> when the anomaly total is positive, and absent otherwise.
  The stored figure is at least 1, within \<open>1/200 + q/2^51\<close> of the quotient \<open>q\<close>, and equal to
  the quotient (namely 1) when the count equals the total.
\<close>

theorem accuracy_of_completed_round:
  "(\<not> pressLock s \<and> index s + 1 = length (questions s) \<longrightarrow>
      (\<exists>r. result (onNextOrSubmit s) = Some r
           \<and> 0 \<le> score r \<and> score r \<le> int (total r) \<and> total r = length (questions s)
           \<and> accuracy r = of_int (score r) / of_nat (total r)
           \<and> 0 \<le> accuracy r \<and> accuracy r \<le> 1))
   \<and> (\<not> round_complete_g j \<and> accuracy_g j = None \<and> n \<le> c \<longrightarrow>
        completed_d (maybeFinishLocally j c (Some n) d)
        \<and> (0 < n \<longrightarrow>
              map_option accuracy_d (finalStats_d (maybeFinishLocally j c (Some n) d))
                = Some (Some (to_double (toFixed2 (to_double (of_int c / of_int n)))))
              \<and> 1 \<le> to_double (toFixed2 (to_double (of_int c / of_int n)))
              \<and> \<bar>to_double (toFixed2 (to_double (of_int c / of_int n))) - of_int c / of_int n\<bar>
                  \<le> 1 / 200 + (of_int c / of_int n) / 2 ^ 51)
        \<and> (n \<le> 0 \<longrightarrow>
              map_option accuracy_d (finalStats_d (maybeFinishLocally j c (Some n) d)) = Some None)
        \<and> (0 < n \<and> c = n \<longrightarrow>
              to_double (toFixed2 (to_double (of_int c / of_int n))) = of_int c / of_int n
              \<and> to_double (toFixed2 (to_double (of_int c / of_int n))) = 1))"
proof (intro conjI impI)
  assume a: "\<not> pressLock s \<and> index s + 1 = length (questions s)"
  then have l: "\<not> pressLock s" and i: "index s + 1 = length (questions s)" by simp_all
  show "\<exists>r. result (onNextOrSubmit s) = Some r
           \<and> 0 \<le> score r \<and> score r \<le> int (total r) \<and> total r = length (questions s)
           \<and> accuracy r = of_int (score r) / of_nat (total r)
           \<and> 0 \<le> accuracy r \<and> accuracy r \<le> 1"
    using onNextOrSubmit_last(1)[OF l i] final_score_bounds[OF i] final_accuracy_bounds[OF i]
    by (simp add: final_accuracy_def)
next
  assume b: "\<not> round_complete_g j \<and> accuracy_g j = None \<and> n \<le> c"
  then have b1: "\<not> round_complete_g j" and b2: "accuracy_g j = None" and b3: "n \<le> c"
    by simp_all
  note f = maybeFinishLocally_fallback[OF b1 b2 b3, of d]
  show "completed_d (maybeFinishLocally j c (Some n) d)" by (rule f(1))
  {
    assume n: "0 < n"
    show "map_option accuracy_d (finalStats_d (maybeFinishLocally j c (Some n) d))
                = Some (Some (to_double (toFixed2 (to_double (of_int c / of_int n)))))"
      by (rule f(2)[OF n])
    have q: "1 \<le> (of_int c / of_int n :: rat)" using n b3 by (simp add: le_divide_eq)
    show "1 \<le> to_double (toFixed2 (to_double (of_int c / of_int n)))"
      by (rule fallback_accuracy_bounds(1)[OF q])
    show "\<bar>to_double (toFixed2 (to_double (of_int c / of_int n))) - of_int c / of_int n\<bar>
                  \<le> 1 / 200 + (of_int c / of_int n) / 2 ^ 51"
      by (rule fallback_accuracy_bounds(2)[OF q])
  }
  {
    assume n: "n \<le> 0"
    show "map_option accuracy_d (finalStats_d (maybeFinishLocally j c (Some n) d)) = Some None"
      by (rule f(3)[OF n])
  }
next
  assume e: "0 < n \<and> c = n"
  then have "(of_int c / of_int n :: rat) = 1" by simp
  then show "to_double (toFixed2 (to_double (of_int c / of_int n))) = of_int c / of_int n"
    by (simp add: toFixed2_one to_double_one)
next
  assume e: "0 < n \<and> c = n"
  then have "(of_int c / of_int n :: rat) = 1" by simp
  then show "to_double (toFixed2 (to_double (of_int c / of_int n))) = 1"
    by (simp add: toFixed2_one to_double_one)
qed

theorem accuracy_of_completed_round_witness:
  "\<not> pressLock last_question_state
   \<and> index last_question_state + 1 = length (questions last_question_state)
   \<and> map_option accuracy (result (onNextOrSubmit last_question_state)) = Some 1
   \<and> \<not> round_complete_g no_guess \<and> accuracy_g no_guess = None \<and> (3::int) \<le> 3 \<and> (0::int) < 3
   \<and> map_option accuracy_d (finalStats_d (maybeFinishLocally no_guess 3 (Some 3) det_round))
        = Some (Some 1)
   \<and> (40::int) \<le> 41 \<and> (0::int) < 40
   \<and> map_option accuracy_d (finalStats_d (maybeFinishLocally no_guess 41 (Some 40) det_round))
        = Some (Some (to_double (51 / 50)))
   \<and> (0::int) \<le> 0
   \<and> map_option accuracy_d (finalStats_d (maybeFinishLocally no_guess 0 (Some 0) det_round))
        = Some None"
proof -
  have h1: "\<not> pressLock last_question_state
            \<and> index last_question_state + 1 = length (questions last_question_state)"
    by (simp add: last_question_state_def init_trivia_def length_bank)
  have g: "\<not> round_complete_g no_guess" "accuracy_g no_guess = None"
    by (simp_all add: no_guess_def)
  note t3 = accuracy_of_completed_round[of last_question_state no_guess 3 3 det_round]
  note t41 = accuracy_of_completed_round[of last_question_state no_guess 40 41 det_round]
  note t0 = accuracy_of_completed_round[of last_question_state no_guess 0 0 det_round]
  from t3 h1 obtain r where r: "result (onNextOrSubmit last_question_state) = Some r"
    and sr: "0 \<le> score r" "score r \<le> int (total r)"
    and acc: "accuracy r = of_int (score r) / of_nat (total r)" by blast
  have fs: "final_score last_question_state = 5"
    by (simp add: final_score_def hit_def earlier_def js_get_def
        last_question_state_def init_trivia_def bank_def
        upt_rec[of 0] upt_rec[of 1] upt_rec[of 2] upt_rec[of 3] upt_rec[of 4])
  have "score r = 5" "total r = 5"
    using onNextOrSubmit_last(1)[of last_question_state] h1 r fs
    by (auto simp: last_question_state_def init_trivia_def length_bank)
  then have "accuracy r = 1" using acc by simp
  then have sc: "map_option accuracy (result (onNextOrSubmit last_question_state)) = Some 1"
    using r by simp
  have n3: "(3::int) \<le> 3" "(0::int) < 3" and n41: "(40::int) \<le> 41" "(0::int) < 40"
    and n0: "(0::int) \<le> 0" by simp_all
  from t3 g n3 have a3: "map_option accuracy_d
        (finalStats_d (maybeFinishLocally no_guess 3 (Some 3) det_round))
      = Some (Some (to_double (toFixed2 (to_double (of_int 3 / of_int 3)))))" by blast
  have d3: "map_option accuracy_d (finalStats_d (maybeFinishLocally no_guess 3 (Some 3) det_round))
        = Some (Some 1)"
    unfolding a3 by (simp add: toFixed2_one to_double_one)
  from t41 g n41 have a41: "map_option accuracy_d
        (finalStats_d (maybeFinishLocally no_guess 41 (Some 40) det_round))
      = Some (Some (to_double (toFixed2 (to_double (of_int 41 / of_int 40)))))" by blast
  have d41: "map_option accuracy_d
        (finalStats_d (maybeFinishLocally no_guess 41 (Some 40) det_round))
      = Some (Some (to_double (51 / 50)))"
    unfolding a41 by (simp add: toFixed2_41_40)
  from t0 g n0 have d0: "map_option accuracy_d
        (finalStats_d (maybeFinishLocally no_guess 0 (Some 0) det_round)) = Some None" by blast
  show ?thesis using h1 g sc d3 d41 d0 by simp
qed

text \<open>With four correct of three anomalies reported, the fallback accuracy is the double
  1.33: neither the quotient 4/3 nor within \<open>[0, 1]\<close>.\<close>

theorem fallback_accuracy_counterexample:
  "map_option accuracy_d (finalStats_d (onSubmit (Inr over_guess) det_round))
     = Some (Some (to_double (133 / 100)))
   \<and> totalCorrect (onSubmit (Inr over_guess) det_round) = 4
   \<and> totalAnomalies (onSubmit (Inr over_guess) det_round) = Some 3
   \<and> to_double (133 / 100) \<noteq> 4 / 3 \<and> 1 < to_double (133 / 100)"
proof -
  have e: "map_option accuracy_d (finalStats_d (onSubmit (Inr over_guess) det_round))
     = Some (Some (to_double (toFixed2 (to_double (4 / 3)))))"
    by (simp add: det_round_eq onSubmit_def over_guess_def no_guess_def truthy_str_def
        maybeFinishLocally_def foundCount_def Let_def)
  have c: "totalCorrect (onSubmit (Inr over_guess) det_round) = 4"
    "totalAnomalies (onSubmit (Inr over_guess) det_round) = Some 3"
    by (simp_all add: det_round_eq onSubmit_def over_guess_def no_guess_def truthy_str_def
        maybeFinishLocally_def foundCount_def Let_def)
  have "\<bar>to_double (133 / 100) - 133 / 100\<bar> \<le> (133 / 100) / 2 ^ 53"
    by (rule to_double_ge1(2)) simp
  then have b: "to_double (133 / 100) - 133 / 100 \<le> 133 / 900719925474099200"
    and b': "133 / 100 - to_double (133 / 100) \<le> 133 / 900719925474099200"
    unfolding abs_le_iff by simp_all
  have n: "to_double (133 / 100) \<noteq> 4 / 3" using b by linarith
  have g: "1 < to_double (133 / 100)" using b' by linarith
  show ?thesis using e c n g by (simp add: toFixed2_4_3)
qed

section \<open>Rank tiers and levels\<close>

lemma tiers_keys:
  "map key tiers = [''Penny Pincher'', ''Savvy Saver'', ''Budget Master'', ''Portfolio Pro'',
                    ''Investment Expert'', ''Finance Legend'']"
  by (simp add: tiers_def)

lemma tiers_mins: "map min_t tiers = [0, 500, 1500, 3500, 7000, 12000]"
  by (simp add: tiers_def)

lemma currentTierIndex_eq:
  "currentTierIndex xp =
     (if 12000 \<le> xp then 5 else if 7000 \<le> xp then 4 else if 3500 \<le> xp then 3
      else if 1500 \<le> xp then 2 else if 500 \<le> xp then 1 else 0)"
  by (simp add: currentTierIndex_def tiers_def findIndex_def)

lemma currentTierIndex_mono: "xp \<le> xp' \<Longrightarrow> currentTierIndex xp \<le> currentTierIndex xp'"
  by (simp add: currentTierIndex_eq)

lemma currentTierIndex_range: "0 \<le> currentTierIndex xp \<and> currentTierIndex xp < 6"
  by (simp add: currentTierIndex_eq)

lemma currentTier_reached: "0 \<le> xp \<Longrightarrow> min_t (currentTier xp) \<le> xp"
  by (simp add: currentTier_def currentTierIndex_eq tiers_def)

lemma nextTier_not_reached: "nextTier xp = Some t \<Longrightarrow> xp < min_t t"
  by (auto simp: nextTier_def currentTierIndex_eq tiers_def Let_def split: if_splits)

lemma filter_upt_less: "k \<le> n \<Longrightarrow> filter (\<lambda>i. i < k) [0..<n] = [0..<k]"
proof -
  assume kn: "k \<le> n"
  have "[0..<n] = [0..<k] @ [k..<n]" using kn by (metis le_add_diff_inverse upt_add_eq_append zero_le)
  moreover have "filter (\<lambda>i. i < k) [0..<k] = [0..<k]" by (rule filter_True) simp
  moreover have "filter (\<lambda>i. i < k) [k..<n] = []" by (rule filter_False) simp
  ultimately show ?thesis by simp
qed

lemma missed_neq: "missed q \<noteq> correctIndex q"
  unfolding missed_def by presburger

lemma correctly_answered_prefix:
  assumes "k \<le> length qs"
  shows "correctly_answered qs (map (\<lambda>q. Some (correctIndex q)) (take k qs)
            @ map (\<lambda>q. Some (missed q)) (drop k qs)) = k"
proof -
  let ?ans = "map (\<lambda>q. Some (correctIndex q)) (take k qs) @ map (\<lambda>q. Some (missed q)) (drop k qs)"
  have g: "(js_get ?ans i = Some (correctIndex (qs ! i))) = (i < k)" if "i < length qs" for i
    using that assms missed_neq[of "qs ! i"]
    by (simp add: js_get_def nth_append min_def)
  have "filter (\<lambda>i. js_get ?ans i = Some (correctIndex (qs ! i))) [0..<length qs]
        = filter (\<lambda>i. i < k) [0..<length qs]"
    by (rule filter_cong) (simp_all add: g)
  then show ?thesis using assms by (simp add: correctly_answered_def filter_upt_less)
qed

lemma length_loaded_round: "length (questions loaded_round) = 6"
    by (simp add: loaded_round_def load_def length_sampleQuestions slice0_def length_shuffle
        length_bank)

lemma half_answers:
  "js_set (answers half_round_state) (index half_round_state) (missed (questions loaded_round ! 5))
   = map (\<lambda>q. Some (correctIndex q)) (take 3 (questions loaded_round))
       @ map (\<lambda>q. Some (missed q)) (drop 3 (questions loaded_round))"
proof -
  have "drop 3 (take 5 (questions loaded_round) @ [questions loaded_round ! 5])
        = drop 3 (questions loaded_round)"
    using take_snoc_all[of "questions loaded_round" 5] length_loaded_round by simp
  then have "drop 3 (take 5 (questions loaded_round)) @ [questions loaded_round ! 5]
        = drop 3 (questions loaded_round)"
    using length_loaded_round by simp
  then have "map (\<lambda>q. Some (missed q)) (drop 3 (take 5 (questions loaded_round)) @ [questions loaded_round ! 5])
     = map (\<lambda>q. Some (missed q)) (drop 3 (questions loaded_round))"
    by (simp only:)
  then have m: "map (\<lambda>q. Some (missed q)) (drop 3 (take 5 (questions loaded_round)))
      @ [Some (missed (questions loaded_round ! 5))]
     = map (\<lambda>q. Some (missed q)) (drop 3 (questions loaded_round))"
    by simp
  have "js_set (answers half_round_state) (index half_round_state) (missed (questions loaded_round ! 5))
     = map (\<lambda>q. Some (correctIndex q)) (take 3 (questions loaded_round))
       @ (map (\<lambda>q. Some (missed q)) (drop 3 (take 5 (questions loaded_round)))
      @ [Some (missed (questions loaded_round ! 5))])"
    using length_loaded_round by (simp add: half_round_state_def js_set_def)
  then show ?thesis by (simp only: m)
qed

lemma half_count:
  "correctly_answered (questions half_round_state)
     (js_set (answers half_round_state) (index half_round_state)
        (missed (questions loaded_round ! 5))) = 3"
proof -
  have q: "questions half_round_state = questions loaded_round"
    by (simp add: half_round_state_def)
  show ?thesis unfolding q half_answers
    by (rule correctly_answered_prefix) (simp add: length_loaded_round)
qed

lemma three_count:
  "correctly_answered (questions three_question_state)
     (js_set (answers three_question_state) (index three_question_state) 2) = 3"
  by (simp add: correctly_answered_def three_question_state_def init_trivia_def bank_def
        js_get_def js_set_def upt_rec[of 0] upt_rec[of 1] upt_rec[of 2])


lemma round_result:
  assumes "\<not> pressLock s" and "index s + 1 = length (questions s)" and "selected s = Some v"
    and "correctly_answered (questions s) (js_set (answers s) (index s) v) = k"
  shows "map_option xpEarned (result (onNextOrSubmit s)) = Some (20 * int k)"
    and "map_option level (result (onNextOrSubmit s))
         = Some (max 1 \<lfloor>1 + rat_of_int (int k) / of_nat (length (questions s)) * 10\<rfloor>)"
proof -
  have c: "final_score s = int k"
    using final_score_counts[OF assms(2,3)] assms(4) by simp
  show "map_option xpEarned (result (onNextOrSubmit s)) = Some (20 * int k)"
    using onNextOrSubmit_last(1)[OF assms(1,2)] c by simp
  show "map_option level (result (onNextOrSubmit s))
         = Some (max 1 \<lfloor>1 + rat_of_int (int k) / of_nat (length (questions s)) * 10\<rfloor>)"
    using onNextOrSubmit_last(1)[OF assms(1,2)] c by (simp add: final_accuracy_def)
qed

lemma sixth_count:
  "correctly_answered (questions sixth_question_state)
     (js_set (answers sixth_question_state) (index sixth_question_state)
        (correctIndex (questions loaded_round ! 5))) = 6"
proof -
  have q6: "questions sixth_question_state = questions loaded_round"
    by (simp add: sixth_question_state_def)
  have tk: "take 5 (questions loaded_round) @ [questions loaded_round ! 5]
            = questions loaded_round"
    using take_snoc_all[of "questions loaded_round" 5] length_loaded_round by simp
  have "map (\<lambda>q. Some (correctIndex q))
          (take 5 (questions loaded_round) @ [questions loaded_round ! 5])
        = map (\<lambda>q. Some (correctIndex q)) (questions loaded_round)"
    by (simp only: tk)
  then have mp: "map (\<lambda>q. Some (correctIndex q)) (take 5 (questions loaded_round))
               @ [Some (correctIndex (questions loaded_round ! 5))]
             = map (\<lambda>q. Some (correctIndex q)) (questions loaded_round)"
    by simp
  have "js_set (answers sixth_question_state) (index sixth_question_state)
                  (correctIndex (questions loaded_round ! 5))
        = map (\<lambda>q. Some (correctIndex q)) (take 5 (questions loaded_round))
               @ [Some (correctIndex (questions loaded_round ! 5))]"
    using length_loaded_round by (simp add: sixth_question_state_def js_set_def)
  then have "js_set (answers sixth_question_state) (index sixth_question_state)
                  (correctIndex (questions loaded_round ! 5))
             = map (\<lambda>q. Some (correctIndex q)) (questions loaded_round)"
    by (simp only: mp)
  then show ?thesis by (simp add: q6 correctly_answered_all length_loaded_round)
qed

lemma sample_rounds_ready:
  "\<not> pressLock sixth_question_state"
  "index sixth_question_state + 1 = length (questions sixth_question_state)"
  "selected sixth_question_state = Some (correctIndex (questions loaded_round ! 5))"
  "length (questions sixth_question_state) = 6"
  "\<not> pressLock half_round_state"
  "index half_round_state + 1 = length (questions half_round_state)"
  "selected half_round_state = Some (missed (questions loaded_round ! 5))"
  "length (questions half_round_state) = 6"
  "\<not> pressLock three_question_state"
  "index three_question_state + 1 = length (questions three_question_state)"
  "selected three_question_state = Some 2"
  "length (questions three_question_state) = 3"
  using length_loaded_round
  by (simp_all add: sixth_question_state_def half_round_state_def three_question_state_def
      loaded_round_def load_def init_trivia_def length_bank)

lemma level_values:
  "max 1 \<lfloor>1 + rat_of_int (int 6) / of_nat 6 * 10\<rfloor> = 11"
  "max 1 \<lfloor>1 + rat_of_int (int 3) / of_nat 6 * 10\<rfloor> = 6"
  "max 1 \<lfloor>1 + rat_of_int (int 3) / of_nat 3 * 10\<rfloor> = 11"
  by simp_all


text \<open>
  Claim C3 (amended). The hub's six tiers carry the names and the minimum thresholds 0,
  500, 1500, 3500, 7000, 12000, strictly increasing; the tier index is a function of the XP alone,
  non-decreasing in it, within the table, and names the last tier whose threshold the XP
  reaches. The level that the local quiz shows is computed from the round alone: the press
  on the last question yields the score (the number of correct answers, between 0 and the
  number of questions), an XP of 20 times the score, the accuracy score / total, and the
  level \<open>max 1 \<lfloor>1 + 10 * score / total\<rfloor>\<close>, between 1 and 11.
\<close>

theorem rank_and_level_from_xp:
  "map key tiers = [''Penny Pincher'', ''Savvy Saver'', ''Budget Master'', ''Portfolio Pro'',
                    ''Investment Expert'', ''Finance Legend'']
   \<and> map min_t tiers = [0, 500, 1500, 3500, 7000, 12000]
   \<and> sorted_wrt (<) (map min_t tiers)
   \<and> (xp = xp' \<longrightarrow> currentTierIndex xp = currentTierIndex xp' \<and> currentTier xp = currentTier xp')
   \<and> (xp \<le> xp' \<longrightarrow> currentTierIndex xp \<le> currentTierIndex xp')
   \<and> 0 \<le> currentTierIndex xp \<and> currentTierIndex xp < int (length tiers)
   \<and> (0 \<le> xp \<longrightarrow> min_t (currentTier xp) \<le> xp)
   \<and> (\<forall>t. nextTier xp = Some t \<longrightarrow> xp < min_t t)
   \<and> (\<not> pressLock s \<and> index s + 1 = length (questions s) \<longrightarrow>
        (\<exists>r. result (onNextOrSubmit s) = Some r
           \<and> total r = length (questions s)
           \<and> (\<forall>v. selected s = Some v \<longrightarrow>
                 score r = int (correctly_answered (questions s)
                                 (js_set (answers s) (index s) v)))
           \<and> 0 \<le> score r \<and> score r \<le> int (total r)
           \<and> xpEarned r = 20 * score r
           \<and> accuracy r = of_int (score r) / of_nat (total r)
           \<and> level r = max 1 \<lfloor>1 + rat_of_int (score r) / of_nat (total r) * 10\<rfloor>
           \<and> 1 \<le> level r \<and> level r \<le> 11))"
proof -
  have srt: "sorted_wrt (<) (map min_t tiers)" by (simp add: tiers_mins)
  have len: "int (length tiers) = 6" by (simp add: tiers_def)
  have c4: "xp = xp' \<longrightarrow> currentTierIndex xp = currentTierIndex xp' \<and> currentTier xp = currentTier xp'"
    by simp
  have c5: "xp \<le> xp' \<longrightarrow> currentTierIndex xp \<le> currentTierIndex xp'"
    using currentTierIndex_mono by blast
  have c6: "0 \<le> currentTierIndex xp" and c7: "currentTierIndex xp < int (length tiers)"
    using currentTierIndex_range[of xp] len by simp_all
  have c8: "0 \<le> xp \<longrightarrow> min_t (currentTier xp) \<le> xp"
    using currentTier_reached by blast
  have c9: "\<forall>t. nextTier xp = Some t \<longrightarrow> xp < min_t t"
    using nextTier_not_reached by blast
  have c10: "\<exists>r. result (onNextOrSubmit s) = Some r
           \<and> total r = length (questions s)
           \<and> (\<forall>v. selected s = Some v \<longrightarrow>
                 score r = int (correctly_answered (questions s)
                                 (js_set (answers s) (index s) v)))
           \<and> 0 \<le> score r \<and> score r \<le> int (total r)
           \<and> xpEarned r = 20 * score r
           \<and> accuracy r = of_int (score r) / of_nat (total r)
           \<and> level r = max 1 \<lfloor>1 + rat_of_int (score r) / of_nat (total r) * 10\<rfloor>
           \<and> 1 \<le> level r \<and> level r \<le> 11"
    if l: "\<not> pressLock s" and i: "index s + 1 = length (questions s)"
  proof -
    let ?r = "\<lparr> score = final_score s, total = length (questions s),
                  accuracy = final_accuracy s,
                  xpEarned = final_score s * 20,
                  level = max 1 \<lfloor>1 + final_accuracy s * 10\<rfloor>,
                  streak = (if final_accuracy s \<ge> 6 / 10 then 3 else 0),
                  explanations_r = explanations s \<rparr>"
    have r: "result (onNextOrSubmit s) = Some ?r" by (rule onNextOrSubmit_last(1)[OF l i])
    have t: "total ?r = length (questions s)" by simp
    have v: "\<forall>v. selected s = Some v \<longrightarrow>
                 score ?r = int (correctly_answered (questions s)
                                 (js_set (answers s) (index s) v))"
      using final_score_counts[OF i] by simp
    have b1: "0 \<le> score ?r" and b2: "score ?r \<le> int (total ?r)"
      using final_score_bounds[OF i] by simp_all
    have x: "xpEarned ?r = 20 * score ?r" by simp
    have a: "accuracy ?r = of_int (score ?r) / of_nat (total ?r)"
      by (simp add: final_accuracy_def)
    have lv: "level ?r = max 1 \<lfloor>1 + rat_of_int (score ?r) / of_nat (total ?r) * 10\<rfloor>"
      by (simp add: final_accuracy_def)
    have f0: "(1::rat) \<le> 1 + final_accuracy s * 10" and f1: "1 + final_accuracy s * 10 \<le> 11"
      using final_accuracy_bounds[OF i] by simp_all
    have "\<lfloor>1 + final_accuracy s * 10\<rfloor> \<le> \<lfloor>11::rat\<rfloor>" using f1 by (rule floor_mono)
    then have l2: "level ?r \<le> 11" by simp
    have l1: "1 \<le> level ?r" by simp
    show ?thesis
      by (rule exI[of _ ?r]) (intro conjI r t v b1 b2 x a lv l1 l2)
  qed
  then have c10': "\<not> pressLock s \<and> index s + 1 = length (questions s) \<longrightarrow>
        (\<exists>r. result (onNextOrSubmit s) = Some r
           \<and> total r = length (questions s)
           \<and> (\<forall>v. selected s = Some v \<longrightarrow>
                 score r = int (correctly_answered (questions s)
                                 (js_set (answers s) (index s) v)))
           \<and> 0 \<le> score r \<and> score r \<le> int (total r)
           \<and> xpEarned r = 20 * score r
           \<and> accuracy r = of_int (score r) / of_nat (total r)
           \<and> level r = max 1 \<lfloor>1 + rat_of_int (score r) / of_nat (total r) * 10\<rfloor>
           \<and> 1 \<le> level r \<and> level r \<le> 11)"
    by blast
  show ?thesis
    by (intro conjI tiers_keys tiers_mins srt c4 c5 c6 c7 c8 c9 c10')
qed

theorem rank_and_level_from_xp_witness:
  "(499::int) \<le> 500 \<and> currentTierIndex 499 = 0 \<and> currentTierIndex 500 = 1
   \<and> key (currentTier 500) = ''Savvy Saver'' \<and> map_option min_t (nextTier 500) = Some 1500
   \<and> currentTierIndex 499 \<le> currentTierIndex 500
   \<and> \<not> pressLock half_round_state
   \<and> index half_round_state + 1 = length (questions half_round_state)
   \<and> selected half_round_state = Some (missed (questions loaded_round ! 5))
   \<and> map_option score (result (onNextOrSubmit half_round_state)) = Some 3
   \<and> map_option total (result (onNextOrSubmit half_round_state)) = Some 6
   \<and> map_option level (result (onNextOrSubmit half_round_state)) = Some 6"
proof -
  note t = rank_and_level_from_xp[of 499 500 half_round_state]
  have m: "(499::int) \<le> 500 \<longrightarrow> currentTierIndex 499 \<le> currentTierIndex 500"
    by (rule conjunct1[OF conjunct2[OF conjunct2[OF conjunct2[OF conjunct2[OF t]]]]])
  have le: "(499::int) \<le> 500" by simp
  have w: "currentTierIndex 499 \<le> currentTierIndex 500" using m le by (rule mp)
  have v1: "currentTierIndex 499 = 0" by (simp add: currentTierIndex_eq)
  have v2: "currentTierIndex 500 = 1" by (simp add: currentTierIndex_eq)
  have v3: "key (currentTier 500) = ''Savvy Saver''"
    by (simp add: currentTier_def v2 tiers_def)
  have v4: "map_option min_t (nextTier 500) = Some 1500"
    by (simp add: nextTier_def v2 tiers_def Let_def)
  have lvl: "\<not> pressLock half_round_state
      \<and> index half_round_state + 1 = length (questions half_round_state) \<longrightarrow>
        (\<exists>r. result (onNextOrSubmit half_round_state) = Some r
           \<and> total r = length (questions half_round_state)
           \<and> (\<forall>v. selected half_round_state = Some v \<longrightarrow>
                 score r = int (correctly_answered (questions half_round_state)
                                 (js_set (answers half_round_state) (index half_round_state) v)))
           \<and> 0 \<le> score r \<and> score r \<le> int (total r)
           \<and> xpEarned r = 20 * score r
           \<and> accuracy r = of_int (score r) / of_nat (total r)
           \<and> level r = max 1 \<lfloor>1 + rat_of_int (score r) / of_nat (total r) * 10\<rfloor>
           \<and> 1 \<le> level r \<and> level r \<le> 11)"
    using t by blast
  note h = sample_rounds_ready(5,6,7)
  from lvl h(1,2) obtain r where r: "result (onNextOrSubmit half_round_state) = Some r"
    and tt: "total r = length (questions half_round_state)"
    and sc: "\<forall>v. selected half_round_state = Some v \<longrightarrow>
                 score r = int (correctly_answered (questions half_round_state)
                                 (js_set (answers half_round_state) (index half_round_state) v))"
    and lv: "level r = max 1 \<lfloor>1 + rat_of_int (score r) / of_nat (total r) * 10\<rfloor>"
    by blast
  have s3: "score r = 3" using sc h(3) half_count by simp
  have t6: "total r = 6" using tt sample_rounds_ready(8) by simp
  have l6: "level r = 6" unfolding lv s3 t6 by simp
  have w1: "map_option score (result (onNextOrSubmit half_round_state)) = Some 3"
    using r s3 by simp
  have w2: "map_option total (result (onNextOrSubmit half_round_state)) = Some 6"
    using r t6 by simp
  have w3: "map_option level (result (onNextOrSubmit half_round_state)) = Some 6"
    using r l6 by simp
  show ?thesis by (intro conjI le v1 v2 v3 v4 w h w1 w2 w3)
qed

text \<open>The level is not a function of the XP: a round of three questions and a round of
  six questions that both earn 60 XP show the levels 11 and 6, and one round of six correct
  answers earns the 120 XP of two rounds of three correct answers at the level 11 instead
  of 6. The detective screen shows the level that the response carries, whatever the total
  XP beside it.\<close>

theorem level_not_from_xp_counterexample:
  "map_option xpEarned (result (onNextOrSubmit three_question_state)) = Some 60
   \<and> map_option level (result (onNextOrSubmit three_question_state)) = Some 11
   \<and> map_option xpEarned (result (onNextOrSubmit half_round_state)) = Some 60
   \<and> map_option level (result (onNextOrSubmit half_round_state)) = Some 6
   \<and> map_option xpEarned (result (onNextOrSubmit sixth_question_state)) = Some 120
   \<and> map_option level (result (onNextOrSubmit sixth_question_state)) = Some 11
   \<and> map_option total_xp_d (finalStats_d (onSubmit (Inr done_level_one) det_round))
       = Some (Some 100)
   \<and> map_option level_d (finalStats_d (onSubmit (Inr done_level_one) det_round))
       = Some (Some 1)
   \<and> map_option total_xp_d (finalStats_d (onSubmit (Inr done_level_seven) det_round))
       = Some (Some 100)
   \<and> map_option level_d (finalStats_d (onSubmit (Inr done_level_seven) det_round))
       = Some (Some 7)"
proof -
  note a = round_result[OF sample_rounds_ready(9,10,11) three_count]
  note b = round_result[OF sample_rounds_ready(5,6,7) half_count]
  note c = round_result[OF sample_rounds_ready(1,2,3) sixth_count]
  have a1: "map_option xpEarned (result (onNextOrSubmit three_question_state)) = Some 60"
    using a(1) by simp
  have a2: "map_option level (result (onNextOrSubmit three_question_state)) = Some 11"
    unfolding a(2) sample_rounds_ready(12) by (simp only: level_values)
  have b1: "map_option xpEarned (result (onNextOrSubmit half_round_state)) = Some 60"
    using b(1) by simp
  have b2: "map_option level (result (onNextOrSubmit half_round_state)) = Some 6"
    unfolding b(2) sample_rounds_ready(8) by (simp only: level_values)
  have c1: "map_option xpEarned (result (onNextOrSubmit sixth_question_state)) = Some 120"
    using c(1) by simp
  have c2: "map_option level (result (onNextOrSubmit sixth_question_state)) = Some 11"
    unfolding c(2) sample_rounds_ready(4) by (simp only: level_values)
  have d1: "map_option total_xp_d (finalStats_d (onSubmit (Inr done_level_one) det_round))
       = Some (Some 100)"
    and d2: "map_option level_d (finalStats_d (onSubmit (Inr done_level_one) det_round))
       = Some (Some 1)"
    and d3: "map_option total_xp_d (finalStats_d (onSubmit (Inr done_level_seven) det_round))
       = Some (Some 100)"
    and d4: "map_option level_d (finalStats_d (onSubmit (Inr done_level_seven) det_round))
       = Some (Some 7)"
    unfolding det_round_eq
    by (simp_all add: onSubmit_def Let_def truthy_str_def done_level_one_def
        done_level_seven_def no_guess_def)
  show ?thesis by (intro conjI a1 a2 b1 b2 c1 c2 d1 d2 d3 d4)
qed

section \<open>The categories board\<close>

lemma demo_board:
  "normalizePlayable conn_demo_start =
     ([\<lparr> id_c = ''cat_0'', label_c = ''Food'', category = Some ''food'' \<rparr>,
       \<lparr> id_c = ''cat_1'', label_c = ''Rent'', category = Some ''rent'' \<rparr>,
       \<lparr> id_c = ''cat_2'', label_c = ''Gas'', category = Some ''gas'' \<rparr>,
       \<lparr> id_c = ''cat_3'', label_c = ''Fun'', category = Some ''fun'' \<rparr>,
       \<lparr> id_c = ''cat_4'', label_c = ''Travel'', category = Some ''travel'' \<rparr>],
      [\<lparr> id_a = ''amt_0'', label_a = ''$120.50'', value_a = Some (241 / 2) \<rparr>,
       \<lparr> id_a = ''amt_1'', label_a = ''$900'', value_a = Some 900 \<rparr>,
       \<lparr> id_a = ''amt_2'', label_a = ''$45'', value_a = Some 45 \<rparr>,
       \<lparr> id_a = ''amt_3'', label_a = ''$60'', value_a = Some 60 \<rparr>,
       \<lparr> id_a = ''amt_4'', label_a = ''$300'', value_a = Some 300 \<rparr>])"
  by code_simp

lemma conn_round_eq:
  "conn_round = \<lparr> loading = False, error = None, lowMsg = None, tries = 3, canPlay = True,
     roundId = Some ''r7'',
     categories_s = fst (normalizePlayable conn_demo_start),
     amounts_s = snd (normalizePlayable conn_demo_start),
     selCatId = Some ''cat_0'', selAmtId = Some ''amt_0'', feedback_s = None,
     solved = [], completed = False, reveal = None, finalStats = None \<rparr>"
proof -
  have s: "startRound (Inr conn_demo_start) init_conn =
     \<lparr> loading = False, error = None, lowMsg = None, tries = 3, canPlay = True,
       roundId = Some ''r7'',
       categories_s = fst (normalizePlayable conn_demo_start),
       amounts_s = snd (normalizePlayable conn_demo_start),
       selCatId = None, selAmtId = None, feedback_s = None,
       solved = [], completed = False, reveal = None, finalStats = None \<rparr>"
    by (simp add: startRound_def init_conn_def Let_def conn_demo_start_def)
  show ?thesis
    unfolding conn_round_def s
    by (simp add: pressCategory_def pressAmount_def shows_board_def done_c_def truthy_str_def
        unsolvedCategories_def unsolvedAmounts_def demo_board)
qed

lemma filter_same_key:
  "distinct (map f xs) \<Longrightarrow> x \<in> set xs \<Longrightarrow> filter (\<lambda>y. f y = f x) xs = [x]"
proof (induction xs)
  case Nil
  then show ?case by simp
next
  case (Cons y ys)
  show ?case
  proof (cases "y = x")
    case True
    have "f x \<notin> f ` set ys" using Cons.prems(1) True by simp
    then have "\<forall>z\<in>set ys. f z \<noteq> f x" by (metis imageI)
    then have "filter (\<lambda>z. f z = f x) ys = []" by (simp add: filter_empty_conv)
    then show ?thesis using True by simp
  next
    case False
    then have m: "x \<in> set ys" using Cons.prems(2) by simp
    have "f y \<notin> f ` set ys" using Cons.prems(1) by simp
    then have "f y \<noteq> f x" using m by auto
    then show ?thesis using Cons.IH m Cons.prems(1) by simp
  qed
qed

lemma filter_other_keys:
  "distinct (map f xs) \<Longrightarrow> c \<in> set xs \<Longrightarrow> filter (\<lambda>x. f x \<noteq> f c) xs = remove1 c xs"
proof (induction xs)
  case Nil
  then show ?case by simp
next
  case (Cons y ys)
  show ?case
  proof (cases "y = c")
    case True
    have "f c \<notin> f ` set ys" using Cons.prems(1) True by simp
    then have "\<forall>z\<in>set ys. f z \<noteq> f c" by (metis imageI)
    then have "filter (\<lambda>x. f x \<noteq> f c) ys = ys" by (simp add: filter_id_conv)
    then show ?thesis using True by simp
  next
    case False
    then have m: "c \<in> set ys" using Cons.prems(2) by simp
    have "f y \<notin> f ` set ys" using Cons.prems(1) by simp
    then have "f y \<noteq> f c" using m by auto
    then show ?thesis using Cons.IH m Cons.prems(1) False by simp
  qed
qed

lemma catMap_unique:
  assumes "distinct (map id_c (categories_s s))" "c \<in> set (categories_s s)"
  shows "catMap s (id_c c) = Some c"
  using filter_same_key[OF assms] by (simp add: catMap_def)

lemma amtMap_unique:
  assumes "distinct (map id_a (amounts_s s))" "a \<in> set (amounts_s s)"
  shows "amtMap s (id_a a) = Some a"
  using filter_same_key[OF assms] by (simp add: amtMap_def)

lemma unsolvedCategories_append:
  assumes "categories_s s' = categories_s s" "solved s' = solved s @ [p]"
  shows "unsolvedCategories s' = filter (\<lambda>x. id_c x \<noteq> id_c (cat p)) (unsolvedCategories s)"
  using assms by (auto simp: unsolvedCategories_def list_ex_iff intro: filter_cong)

lemma unsolvedAmounts_append:
  assumes "amounts_s s' = amounts_s s" "solved s' = solved s @ [p]"
  shows "unsolvedAmounts s' = filter (\<lambda>x. id_a x \<noteq> id_a (amt p)) (unsolvedAmounts s)"
  using assms by (auto simp: unsolvedAmounts_def list_ex_iff intro: filter_cong)

lemma onCheck_wrong:
  assumes "truthy_str (selCatId s)" "truthy_str (selAmtId s)" "feedback_s s = None"
    and "\<not> ok_m j \<or> correct j \<noteq> Some True"
  shows "solved (onCheck (Inr j) s) = solved s"
    and "categories_s (onCheck (Inr j) s) = categories_s s"
    and "amounts_s (onCheck (Inr j) s) = amounts_s s"
    and "feedback_s (onCheck (Inr j) s) = Some Wrong"
  using assms by (auto simp: onCheck_def Let_def split: option.splits)

lemma onCheck_right:
  assumes "truthy_str (selCatId s)" "truthy_str (selAmtId s)" "feedback_s s = None"
    and "ok_m j" "correct j = Some True"
    and "catMap s (the (selCatId s)) = Some c" "amtMap s (the (selAmtId s)) = Some a"
  shows "solved (onCheck (Inr j) s) = solved s @ [\<lparr> cat = c, amt = a \<rparr>]"
    and "categories_s (onCheck (Inr j) s) = categories_s s"
    and "amounts_s (onCheck (Inr j) s) = amounts_s s"
    and "feedback_s (onCheck (Inr j) s) = Some Correct"
  using assms by (auto simp: onCheck_def Let_def split: option.splits)

lemma unsolved_distinct:
  "distinct (map id_c (categories_s s)) \<Longrightarrow> distinct (map id_c (unsolvedCategories s))"
  "distinct (map id_a (amounts_s s)) \<Longrightarrow> distinct (map id_a (unsolvedAmounts s))"
  by (simp_all add: unsolvedCategories_def unsolvedAmounts_def distinct_map_filter)

lemma dup_board:
  "normalizePlayable conn_dup_start =
     ([\<lparr> id_c = ''cat_0'', label_c = ''Food'', category = Some ''food'' \<rparr>,
       \<lparr> id_c = ''cat_1'', label_c = ''Rent'', category = Some ''rent'' \<rparr>,
       \<lparr> id_c = ''cat_2'', label_c = ''Gas'', category = Some ''gas'' \<rparr>,
       \<lparr> id_c = ''cat_3'', label_c = ''Fun'', category = Some ''fun'' \<rparr>,
       \<lparr> id_c = ''cat_4'', label_c = ''Travel'', category = Some ''travel'' \<rparr>],
      [\<lparr> id_a = ''amt_1'', label_a = ''$120.50'', value_a = Some (241 / 2) \<rparr>,
       \<lparr> id_a = ''amt_1'', label_a = ''$900'', value_a = Some 900 \<rparr>,
       \<lparr> id_a = ''amt_2'', label_a = ''$45'', value_a = Some 45 \<rparr>,
       \<lparr> id_a = ''amt_3'', label_a = ''$60'', value_a = Some 60 \<rparr>,
       \<lparr> id_a = ''amt_4'', label_a = ''$300'', value_a = Some 300 \<rparr>])"
  by code_simp

lemma dup_round_eq:
  "dup_round = \<lparr> loading = False, error = None, lowMsg = None, tries = 3, canPlay = True,
     roundId = Some ''r7'',
     categories_s = fst (normalizePlayable conn_dup_start),
     amounts_s = snd (normalizePlayable conn_dup_start),
     selCatId = Some ''cat_0'', selAmtId = Some ''amt_1'', feedback_s = None,
     solved = [], completed = False, reveal = None, finalStats = None \<rparr>"
proof -
  have s: "startRound (Inr conn_dup_start) init_conn =
     \<lparr> loading = False, error = None, lowMsg = None, tries = 3, canPlay = True,
       roundId = Some ''r7'',
       categories_s = fst (normalizePlayable conn_dup_start),
       amounts_s = snd (normalizePlayable conn_dup_start),
       selCatId = None, selAmtId = None, feedback_s = None,
       solved = [], completed = False, reveal = None, finalStats = None \<rparr>"
    by (simp add: startRound_def init_conn_def Let_def conn_dup_start_def conn_demo_start_def)
  show ?thesis
    unfolding dup_round_def s
    by (simp add: pressCategory_def pressAmount_def shows_board_def done_c_def truthy_str_def
        unsolvedCategories_def unsolvedAmounts_def dup_board)
qed

lemma catMap_last:
  "catMap s k = Some c \<Longrightarrow> c \<in> set (categories_s s) \<and> id_c c = k
      \<and> c = last (filter (\<lambda>x. id_c x = k) (categories_s s))"
proof -
  assume a: "catMap s k = Some c"
  let ?f = "filter (\<lambda>x. id_c x = k) (categories_s s)"
  have ne: "?f \<noteq> []" using a by (auto simp: catMap_def split: list.splits)
  then have c: "c = last ?f" using a by (auto simp: catMap_def split: list.splits)
  have "last ?f \<in> set ?f" using ne by (rule last_in_set)
  then show ?thesis using c by simp
qed

lemma amtMap_last:
  "amtMap s k = Some a \<Longrightarrow> a \<in> set (amounts_s s) \<and> id_a a = k
      \<and> a = last (filter (\<lambda>x. id_a x = k) (amounts_s s))"
proof -
  assume a: "amtMap s k = Some a"
  let ?f = "filter (\<lambda>x. id_a x = k) (amounts_s s)"
  have ne: "?f \<noteq> []" using a by (auto simp: amtMap_def split: list.splits)
  then have c: "a = last ?f" using a by (auto simp: amtMap_def split: list.splits)
  have "last ?f \<in> set ?f" using ne by (rule last_in_set)
  then show ?thesis using c by simp
qed

lemma catMap_some:
  "c \<in> set (categories_s s) \<Longrightarrow> \<exists>c'. catMap s (id_c c) = Some c'"
proof -
  assume "c \<in> set (categories_s s)"
  then have "c \<in> set (filter (\<lambda>x. id_c x = id_c c) (categories_s s))" by simp
  then have "filter (\<lambda>x. id_c x = id_c c) (categories_s s) \<noteq> []" by (metis empty_iff empty_set)
  then show ?thesis by (simp add: catMap_def split: list.splits)
qed

lemma amtMap_some:
  "a \<in> set (amounts_s s) \<Longrightarrow> \<exists>a'. amtMap s (id_a a) = Some a'"
proof -
  assume "a \<in> set (amounts_s s)"
  then have "a \<in> set (filter (\<lambda>x. id_a x = id_a a) (amounts_s s))" by simp
  then have "filter (\<lambda>x. id_a x = id_a a) (amounts_s s) \<noteq> []" by (metis empty_iff empty_set)
  then show ?thesis by (simp add: amtMap_def split: list.splits)
qed

lemma onCheck_right_none:
  assumes "truthy_str (selCatId s)" "truthy_str (selAmtId s)" "feedback_s s = None"
    and "ok_m j" "correct j = Some True"
    and "catMap s (the (selCatId s)) = None \<or> amtMap s (the (selAmtId s)) = None"
  shows "solved (onCheck (Inr j) s) = solved s"
    and "categories_s (onCheck (Inr j) s) = categories_s s"
    and "amounts_s (onCheck (Inr j) s) = amounts_s s"
  using assms by (auto simp: onCheck_def Let_def split: option.splits)

lemma filter_drops_member:
  "x \<in> set xs \<Longrightarrow> length (filter (\<lambda>y. f y \<noteq> f x) xs) < length xs"
  by (rule length_filter_less[of x]) simp_all

lemma conn_round_fields:
  "selCatId conn_round = Some ''cat_0''" "selAmtId conn_round = Some ''amt_0''"
  "feedback_s conn_round = None" "solved conn_round = []" "tries conn_round = 3"
  "categories_s conn_round = fst (normalizePlayable conn_demo_start)"
  "amounts_s conn_round = snd (normalizePlayable conn_demo_start)"
  by (simp_all add: conn_round_eq)

lemma conn_round_pools:
  "unsolvedCategories conn_round = fst (normalizePlayable conn_demo_start)"
  "unsolvedAmounts conn_round = snd (normalizePlayable conn_demo_start)"
  by (simp_all add: unsolvedCategories_def unsolvedAmounts_def conn_round_fields)

lemma dup_round_fields:
  "selCatId dup_round = Some ''cat_0''" "selAmtId dup_round = Some ''amt_1''"
  "feedback_s dup_round = None" "solved dup_round = []"
  "categories_s dup_round = fst (normalizePlayable conn_dup_start)"
  "amounts_s dup_round = snd (normalizePlayable conn_dup_start)"
  by (simp_all add: dup_round_eq)

lemma dup_round_pools:
  "unsolvedCategories dup_round = fst (normalizePlayable conn_dup_start)"
  "unsolvedAmounts dup_round = snd (normalizePlayable conn_dup_start)"
  by (simp_all add: unsolvedCategories_def unsolvedAmounts_def dup_round_fields)


text \<open>
  Claim C7 (amended). With a category and an amount selected and no feedback showing, a
  response that is not a correct match leaves the solved pairs and both unsolved pools as they
  were. A correct match appends exactly one pair, made of the last tile of the board that
  carries the selected category id and the last that carries the selected amount id (none
  when no tile carries one of the ids), and removes from each unsolved pool every tile
  that carries the selected id, so that each pool gets shorter and no longer holds the
  selected tile. When the ids of a pool are distinct the pair holds the selected tile
  itself and the pool loses exactly that tile.
\<close>

theorem onCheck_pools_and_pairs:
  assumes sc: "selCatId s = Some ci" "ci \<noteq> []" and sa: "selAmtId s = Some ai" "ai \<noteq> []"
    and fb: "feedback_s s = None"
  shows "(\<not> ok_m j \<or> correct j \<noteq> Some True \<longrightarrow>
            solved (onCheck (Inr j) s) = solved s
            \<and> unsolvedCategories (onCheck (Inr j) s) = unsolvedCategories s
            \<and> unsolvedAmounts (onCheck (Inr j) s) = unsolvedAmounts s)
       \<and> (ok_m j \<and> correct j = Some True
            \<and> (catMap s ci = None \<or> amtMap s ai = None) \<longrightarrow>
            solved (onCheck (Inr j) s) = solved s
            \<and> unsolvedCategories (onCheck (Inr j) s) = unsolvedCategories s
            \<and> unsolvedAmounts (onCheck (Inr j) s) = unsolvedAmounts s)
       \<and> (ok_m j \<and> correct j = Some True
            \<and> c \<in> set (unsolvedCategories s) \<and> id_c c = ci
            \<and> a \<in> set (unsolvedAmounts s) \<and> id_a a = ai \<longrightarrow>
            (\<exists>c' a'. solved (onCheck (Inr j) s) = solved s @ [\<lparr> cat = c', amt = a' \<rparr>]
               \<and> c' = last (filter (\<lambda>x. id_c x = ci) (categories_s s))
               \<and> a' = last (filter (\<lambda>x. id_a x = ai) (amounts_s s))
               \<and> id_c c' = ci \<and> id_a a' = ai
               \<and> (distinct (map id_c (categories_s s)) \<longrightarrow> c' = c)
               \<and> (distinct (map id_a (amounts_s s)) \<longrightarrow> a' = a))
            \<and> unsolvedCategories (onCheck (Inr j) s)
                = filter (\<lambda>x. id_c x \<noteq> ci) (unsolvedCategories s)
            \<and> unsolvedAmounts (onCheck (Inr j) s)
                = filter (\<lambda>x. id_a x \<noteq> ai) (unsolvedAmounts s)
            \<and> length (unsolvedCategories (onCheck (Inr j) s)) < length (unsolvedCategories s)
            \<and> length (unsolvedAmounts (onCheck (Inr j) s)) < length (unsolvedAmounts s)
            \<and> c \<notin> set (unsolvedCategories (onCheck (Inr j) s))
            \<and> a \<notin> set (unsolvedAmounts (onCheck (Inr j) s))
            \<and> (distinct (map id_c (categories_s s)) \<longrightarrow>
                 unsolvedCategories (onCheck (Inr j) s) = remove1 c (unsolvedCategories s)
                 \<and> length (unsolvedCategories (onCheck (Inr j) s)) + 1
                     = length (unsolvedCategories s))
            \<and> (distinct (map id_a (amounts_s s)) \<longrightarrow>
                 unsolvedAmounts (onCheck (Inr j) s) = remove1 a (unsolvedAmounts s)
                 \<and> length (unsolvedAmounts (onCheck (Inr j) s)) + 1
                     = length (unsolvedAmounts s)))"
proof -
  have tc: "truthy_str (selCatId s)" and ta: "truthy_str (selAmtId s)"
    using sc sa by (simp_all add: truthy_str_def)
  have p1: "solved (onCheck (Inr j) s) = solved s
            \<and> unsolvedCategories (onCheck (Inr j) s) = unsolvedCategories s
            \<and> unsolvedAmounts (onCheck (Inr j) s) = unsolvedAmounts s"
    if w: "\<not> ok_m j \<or> correct j \<noteq> Some True"
  proof -
    note ow = onCheck_wrong[OF tc ta fb w]
    have "unsolvedCategories (onCheck (Inr j) s) = unsolvedCategories s"
      by (simp add: unsolvedCategories_def ow(1) ow(2))
    moreover have "unsolvedAmounts (onCheck (Inr j) s) = unsolvedAmounts s"
      by (simp add: unsolvedAmounts_def ow(1) ow(3))
    ultimately show ?thesis using ow(1) by simp
  qed
  have p2: "solved (onCheck (Inr j) s) = solved s
            \<and> unsolvedCategories (onCheck (Inr j) s) = unsolvedCategories s
            \<and> unsolvedAmounts (onCheck (Inr j) s) = unsolvedAmounts s"
    if ok: "ok_m j" and co: "correct j = Some True"
      and n: "catMap s ci = None \<or> amtMap s ai = None"
  proof -
    have n': "catMap s (the (selCatId s)) = None \<or> amtMap s (the (selAmtId s)) = None"
      using n sc(1) sa(1) by simp
    note ow = onCheck_right_none[OF tc ta fb ok co n']
    have "unsolvedCategories (onCheck (Inr j) s) = unsolvedCategories s"
      by (simp add: unsolvedCategories_def ow(1) ow(2))
    moreover have "unsolvedAmounts (onCheck (Inr j) s) = unsolvedAmounts s"
      by (simp add: unsolvedAmounts_def ow(1) ow(3))
    ultimately show ?thesis using ow(1) by simp
  qed
  have p3: "(\<exists>c' a'. solved (onCheck (Inr j) s) = solved s @ [\<lparr> cat = c', amt = a' \<rparr>]
               \<and> c' = last (filter (\<lambda>x. id_c x = ci) (categories_s s))
               \<and> a' = last (filter (\<lambda>x. id_a x = ai) (amounts_s s))
               \<and> id_c c' = ci \<and> id_a a' = ai
               \<and> (distinct (map id_c (categories_s s)) \<longrightarrow> c' = c)
               \<and> (distinct (map id_a (amounts_s s)) \<longrightarrow> a' = a))
            \<and> unsolvedCategories (onCheck (Inr j) s)
                = filter (\<lambda>x. id_c x \<noteq> ci) (unsolvedCategories s)
            \<and> unsolvedAmounts (onCheck (Inr j) s)
                = filter (\<lambda>x. id_a x \<noteq> ai) (unsolvedAmounts s)
            \<and> length (unsolvedCategories (onCheck (Inr j) s)) < length (unsolvedCategories s)
            \<and> length (unsolvedAmounts (onCheck (Inr j) s)) < length (unsolvedAmounts s)
            \<and> c \<notin> set (unsolvedCategories (onCheck (Inr j) s))
            \<and> a \<notin> set (unsolvedAmounts (onCheck (Inr j) s))
            \<and> (distinct (map id_c (categories_s s)) \<longrightarrow>
                 unsolvedCategories (onCheck (Inr j) s) = remove1 c (unsolvedCategories s)
                 \<and> length (unsolvedCategories (onCheck (Inr j) s)) + 1
                     = length (unsolvedCategories s))
            \<and> (distinct (map id_a (amounts_s s)) \<longrightarrow>
                 unsolvedAmounts (onCheck (Inr j) s) = remove1 a (unsolvedAmounts s)
                 \<and> length (unsolvedAmounts (onCheck (Inr j) s)) + 1
                     = length (unsolvedAmounts s))"
    if ok: "ok_m j" and co: "correct j = Some True"
      and cu: "c \<in> set (unsolvedCategories s)" and ic: "id_c c = ci"
      and au: "a \<in> set (unsolvedAmounts s)" and ia: "id_a a = ai"
  proof -
    have cm: "c \<in> set (categories_s s)" using cu by (simp add: unsolvedCategories_def)
    have am: "a \<in> set (amounts_s s)" using au by (simp add: unsolvedAmounts_def)
    obtain c' where k1: "catMap s ci = Some c'" using catMap_some[OF cm] ic by auto
    obtain a' where k2: "amtMap s ai = Some a'" using amtMap_some[OF am] ia by auto
    note cl = catMap_last[OF k1] and al = amtMap_last[OF k2]
    have idc: "id_c c' = ci" using cl by blast
    have ida: "id_a a' = ai" using al by blast
    have k1': "catMap s (the (selCatId s)) = Some c'" using k1 sc(1) by simp
    have k2': "amtMap s (the (selAmtId s)) = Some a'" using k2 sa(1) by simp
    note orr = onCheck_right[OF tc ta fb ok co k1' k2']
    have dc: "c' = c" if d: "distinct (map id_c (categories_s s))"
      using catMap_unique[OF d cm] k1 ic by simp
    have da: "a' = a" if d: "distinct (map id_a (amounts_s s))"
      using amtMap_unique[OF d am] k2 ia by simp
    have e: "\<exists>c' a'. solved (onCheck (Inr j) s) = solved s @ [\<lparr> cat = c', amt = a' \<rparr>]
               \<and> c' = last (filter (\<lambda>x. id_c x = ci) (categories_s s))
               \<and> a' = last (filter (\<lambda>x. id_a x = ai) (amounts_s s))
               \<and> id_c c' = ci \<and> id_a a' = ai
               \<and> (distinct (map id_c (categories_s s)) \<longrightarrow> c' = c)
               \<and> (distinct (map id_a (amounts_s s)) \<longrightarrow> a' = a)"
      using orr(1) cl al dc da by blast
    have uc: "unsolvedCategories (onCheck (Inr j) s)
          = filter (\<lambda>x. id_c x \<noteq> ci) (unsolvedCategories s)"
      using unsolvedCategories_append[OF orr(2) orr(1)] by (simp add: idc)
    have ua: "unsolvedAmounts (onCheck (Inr j) s)
          = filter (\<lambda>x. id_a x \<noteq> ai) (unsolvedAmounts s)"
      using unsolvedAmounts_append[OF orr(3) orr(1)] by (simp add: ida)
    have lc: "length (unsolvedCategories (onCheck (Inr j) s)) < length (unsolvedCategories s)"
      unfolding uc using filter_drops_member[OF cu, of id_c] ic by simp
    have la: "length (unsolvedAmounts (onCheck (Inr j) s)) < length (unsolvedAmounts s)"
      unfolding ua using filter_drops_member[OF au, of id_a] ia by simp
    have nc: "c \<notin> set (unsolvedCategories (onCheck (Inr j) s))" unfolding uc using ic by simp
    have na: "a \<notin> set (unsolvedAmounts (onCheck (Inr j) s))" unfolding ua using ia by simp
    have rc: "unsolvedCategories (onCheck (Inr j) s) = remove1 c (unsolvedCategories s)
                 \<and> length (unsolvedCategories (onCheck (Inr j) s)) + 1
                     = length (unsolvedCategories s)"
      if d: "distinct (map id_c (categories_s s))"
    proof -
      have r: "unsolvedCategories (onCheck (Inr j) s) = remove1 c (unsolvedCategories s)"
        unfolding uc using filter_other_keys[OF unsolved_distinct(1)[OF d] cu] ic by simp
      have "0 < length (unsolvedCategories s)" using cu by (rule length_pos_if_in_set)
      then have "length (remove1 c (unsolvedCategories s)) + 1 = length (unsolvedCategories s)"
        using cu by (simp add: length_remove1)
      then show ?thesis using r by simp
    qed
    have ra: "unsolvedAmounts (onCheck (Inr j) s) = remove1 a (unsolvedAmounts s)
                 \<and> length (unsolvedAmounts (onCheck (Inr j) s)) + 1
                     = length (unsolvedAmounts s)"
      if d: "distinct (map id_a (amounts_s s))"
    proof -
      have r: "unsolvedAmounts (onCheck (Inr j) s) = remove1 a (unsolvedAmounts s)"
        unfolding ua using filter_other_keys[OF unsolved_distinct(2)[OF d] au] ia by simp
      have "0 < length (unsolvedAmounts s)" using au by (rule length_pos_if_in_set)
      then have "length (remove1 a (unsolvedAmounts s)) + 1 = length (unsolvedAmounts s)"
        using au by (simp add: length_remove1)
      then show ?thesis using r by simp
    qed
    show ?thesis
      using e uc ua lc la nc na rc ra by blast
  qed
  show ?thesis
    using p1 p2 p3 by blast
qed

theorem onCheck_pools_and_pairs_witness:
  "selCatId conn_round = Some ''cat_0'' \<and> selAmtId conn_round = Some ''amt_0''
   \<and> feedback_s conn_round = None
   \<and> solved (onCheck (Inr no_match) conn_round) = []
   \<and> length (unsolvedCategories (onCheck (Inr no_match) conn_round)) = 5
   \<and> solved (onCheck (Inr a_match) conn_round) = [\<lparr> cat = food_tile, amt = first_amount \<rparr>]
   \<and> length (unsolvedCategories (onCheck (Inr a_match) conn_round)) + 1 = 5
   \<and> length (unsolvedAmounts (onCheck (Inr a_match) conn_round)) + 1 = 5
   \<and> selCatId dup_round = Some ''cat_0'' \<and> selAmtId dup_round = Some ''amt_1''
   \<and> feedback_s dup_round = None
   \<and> first_amount\<lparr> id_a := ''amt_1'' \<rparr> \<notin> set (unsolvedAmounts (onCheck (Inr a_match) dup_round))
   \<and> length (unsolvedAmounts (onCheck (Inr a_match) dup_round)) < 5"
proof -
  have n1: "''cat_0'' \<noteq> []" and n2: "''amt_0'' \<noteq> []" and n3: "''amt_1'' \<noteq> []"
    by simp_all
  note w = onCheck_pools_and_pairs[OF conn_round_fields(1) n1 conn_round_fields(2) n2
      conn_round_fields(3), where j=no_match and c=food_tile and a=first_amount]
  note r = onCheck_pools_and_pairs[OF conn_round_fields(1) n1 conn_round_fields(2) n2
      conn_round_fields(3), where j=a_match and c=food_tile and a=first_amount]
  note d = onCheck_pools_and_pairs[OF dup_round_fields(1) n1 dup_round_fields(2) n3
      dup_round_fields(3), where j=a_match and c=food_tile
      and a="first_amount\<lparr> id_a := ''amt_1'' \<rparr>"]
  have wrong: "\<not> ok_m no_match \<or> correct no_match \<noteq> Some True" by (simp add: no_match_def)
  have right: "ok_m a_match \<and> correct a_match = Some True
      \<and> food_tile \<in> set (unsolvedCategories conn_round) \<and> id_c food_tile = ''cat_0''
      \<and> first_amount \<in> set (unsolvedAmounts conn_round) \<and> id_a first_amount = ''amt_0''"
    by (simp add: a_match_def no_match_def conn_round_pools demo_board
        food_tile_def first_amount_def)
  have dist: "distinct (map id_c (categories_s conn_round))"
    "distinct (map id_a (amounts_s conn_round))"
    by (simp_all add: conn_round_fields demo_board)
  have right_d: "ok_m a_match \<and> correct a_match = Some True
      \<and> food_tile \<in> set (unsolvedCategories dup_round) \<and> id_c food_tile = ''cat_0''
      \<and> first_amount\<lparr> id_a := ''amt_1'' \<rparr> \<in> set (unsolvedAmounts dup_round)
      \<and> id_a (first_amount\<lparr> id_a := ''amt_1'' \<rparr>) = ''amt_1''"
    by (simp add: a_match_def no_match_def dup_round_pools dup_board
        food_tile_def first_amount_def)
  have l5: "length (unsolvedCategories conn_round) = 5" "length (unsolvedAmounts conn_round) = 5"
    "length (unsolvedAmounts dup_round) = 5"
    by (simp_all add: conn_round_pools dup_round_pools demo_board dup_board)
  from w wrong have w1: "solved (onCheck (Inr no_match) conn_round) = solved conn_round"
    and w2: "unsolvedCategories (onCheck (Inr no_match) conn_round) = unsolvedCategories conn_round"
    by blast+
  note r' = mp[OF conjunct2[OF conjunct2[OF r]] right]
  from r' obtain c' a' where
        r0: "solved (onCheck (Inr a_match) conn_round)
               = solved conn_round @ [\<lparr> cat = c', amt = a' \<rparr>]"
    and rc: "distinct (map id_c (categories_s conn_round)) \<longrightarrow> c' = food_tile"
    and ra: "distinct (map id_a (amounts_s conn_round)) \<longrightarrow> a' = first_amount"
    by blast
  have r1: "solved (onCheck (Inr a_match) conn_round)
        = solved conn_round @ [\<lparr> cat = food_tile, amt = first_amount \<rparr>]"
    using r0 rc ra dist by simp
  from r' dist have r2: "length (unsolvedCategories (onCheck (Inr a_match) conn_round)) + 1
        = length (unsolvedCategories conn_round)"
    and r3: "length (unsolvedAmounts (onCheck (Inr a_match) conn_round)) + 1
        = length (unsolvedAmounts conn_round)"
    by blast+
  note d' = mp[OF conjunct2[OF conjunct2[OF d]] right_d]
  from d' have d1: "first_amount\<lparr> id_a := ''amt_1'' \<rparr>
        \<notin> set (unsolvedAmounts (onCheck (Inr a_match) dup_round))"
    and d2: "length (unsolvedAmounts (onCheck (Inr a_match) dup_round))
        < length (unsolvedAmounts dup_round)"
    by blast+
  have f1: "solved (onCheck (Inr no_match) conn_round) = []"
    using w1 by (simp add: conn_round_fields)
  have f2: "length (unsolvedCategories (onCheck (Inr no_match) conn_round)) = 5"
    using w2 l5 by simp
  have f3: "solved (onCheck (Inr a_match) conn_round) = [\<lparr> cat = food_tile, amt = first_amount \<rparr>]"
    using r1 by (simp add: conn_round_fields)
  have f4: "length (unsolvedCategories (onCheck (Inr a_match) conn_round)) + 1 = 5"
    using r2 l5 by simp
  have f5: "length (unsolvedAmounts (onCheck (Inr a_match) conn_round)) + 1 = 5"
    using r3 l5 by simp
  have f6: "length (unsolvedAmounts (onCheck (Inr a_match) dup_round)) < 5"
    using d2 l5 by simp
  show ?thesis
    by (intro conjI conn_round_fields(1,2,3) f1 f2 f3 f4 f5 dup_round_fields(1,2,3) d1 f6)
qed

text \<open>Tile ids need not be distinct: on a board with two amount tiles of the id
  \<open>amt_1\<close> a correct match on that id removes both from the pool of five, and the pair
  records the second of them.\<close>

theorem onCheck_duplicate_id_counterexample:
  "length (unsolvedAmounts dup_round) = 5
   \<and> selCatId dup_round = Some ''cat_0'' \<and> selAmtId dup_round = Some ''amt_1''
   \<and> feedback_s dup_round = None
   \<and> length (solved (onCheck (Inr a_match) dup_round)) = 1
   \<and> map amt (solved (onCheck (Inr a_match) dup_round))
       = [\<lparr> id_a = ''amt_1'', label_a = ''$900'', value_a = Some 900 \<rparr>]
   \<and> length (unsolvedAmounts (onCheck (Inr a_match) dup_round)) = 3
   \<and> length (unsolvedCategories (onCheck (Inr a_match) dup_round)) = 4"
  unfolding dup_round_eq dup_board
  by (simp add: onCheck_def Let_def truthy_str_def a_match_def no_match_def catMap_def amtMap_def
      unsolvedAmounts_def unsolvedCategories_def solvedCount_def)

section \<open>The tries counter\<close>

lemma onSubmit_tries:
  "tries_d (onSubmit r d) = tries_d d
   \<or> (\<exists>t. reported_d r = Some t \<and> tries_d (onSubmit r d) = min (tries_d d) t)"
  by (cases r)
     (auto simp: onSubmit_def maybeFinishLocally_def reported_d_def Let_def split: option.splits)

lemma onCheck_tries:
  "tries (onCheck q c) = tries c \<or> reported_c q = Some (tries (onCheck q c))"
  by (cases q) (auto simp: onCheck_def reported_c_def Let_def split: option.splits prod.splits)

lemma onSubmit_tries_eq:
  "truthy_str (selectedId d) \<Longrightarrow>
     tries_d (onSubmit r d)
       = (case reported_d r of Some t \<Rightarrow> min (tries_d d) t | None \<Rightarrow> tries_d d)"
  by (cases r)
     (auto simp: onSubmit_def maybeFinishLocally_def reported_d_def Let_def split: option.splits)

lemma onSubmit_idle: "\<not> truthy_str (selectedId d) \<Longrightarrow> onSubmit r d = d"
  by (simp add: onSubmit_def)

lemma onCheck_tries_eq:
  "truthy_str (selCatId c) \<and> truthy_str (selAmtId c) \<and> feedback_s c = None \<Longrightarrow>
     tries (onCheck q c) = (case reported_c q of Some t \<Rightarrow> t | None \<Rightarrow> tries c)"
  by (cases q) (auto simp: onCheck_def reported_c_def Let_def split: option.splits prod.splits)

lemma onCheck_idle:
  "\<not> (truthy_str (selCatId c) \<and> truthy_str (selAmtId c) \<and> feedback_s c = None) \<Longrightarrow>
     onCheck q c = c"
  by (auto simp: onCheck_def)

text \<open>
  Claim C1 (amended). A guess submitted on the detective screen sets the tries counter to
  the minimum of its previous value and the reported \<open>tries_remaining\<close>, and leaves it alone
  when none is reported: the counter never increases, and stays non-negative as long as
  the reported values are. A match checked on the categories screen sets the counter to
  the reported value as it is, and leaves it alone when none is reported: the counter
  stays within 0 and the previous value when the reported value does. Without a selection
  (and, on the categories screen, while feedback is showing) neither handler changes
  anything.
\<close>

theorem tries_counter_updates:
  "tries_d (onSubmit r d) \<le> tries_d d
   \<and> (0 \<le> tries_d d \<and> (\<forall>t. reported_d r = Some t \<longrightarrow> 0 \<le> t) \<longrightarrow> 0 \<le> tries_d (onSubmit r d))
   \<and> (tries (onCheck q c) = tries c \<or> reported_c q = Some (tries (onCheck q c)))
   \<and> (0 \<le> tries c \<and> (\<forall>t. reported_c q = Some t \<longrightarrow> 0 \<le> t \<and> t \<le> tries c)
        \<longrightarrow> 0 \<le> tries (onCheck q c) \<and> tries (onCheck q c) \<le> tries c)
   \<and> (truthy_str (selectedId d) \<longrightarrow>
        tries_d (onSubmit r d)
          = (case reported_d r of Some t \<Rightarrow> min (tries_d d) t | None \<Rightarrow> tries_d d))
   \<and> (\<not> truthy_str (selectedId d) \<longrightarrow> onSubmit r d = d)
   \<and> (truthy_str (selCatId c) \<and> truthy_str (selAmtId c) \<and> feedback_s c = None \<longrightarrow>
        tries (onCheck q c) = (case reported_c q of Some t \<Rightarrow> t | None \<Rightarrow> tries c))
   \<and> (\<not> (truthy_str (selCatId c) \<and> truthy_str (selAmtId c) \<and> feedback_s c = None) \<longrightarrow>
        onCheck q c = c)"
proof (intro conjI impI)
  show "tries_d (onSubmit r d) \<le> tries_d d"
    using onSubmit_tries[of r d] by auto
  show "0 \<le> tries_d (onSubmit r d)"
    if "0 \<le> tries_d d \<and> (\<forall>t. reported_d r = Some t \<longrightarrow> 0 \<le> t)"
    using onSubmit_tries[of r d] that by auto
  show "tries (onCheck q c) = tries c \<or> reported_c q = Some (tries (onCheck q c))"
    by (rule onCheck_tries)
  show "0 \<le> tries (onCheck q c)"
    if "0 \<le> tries c \<and> (\<forall>t. reported_c q = Some t \<longrightarrow> 0 \<le> t \<and> t \<le> tries c)"
    using onCheck_tries[of q c] that by auto
  show "tries (onCheck q c) \<le> tries c"
    if "0 \<le> tries c \<and> (\<forall>t. reported_c q = Some t \<longrightarrow> 0 \<le> t \<and> t \<le> tries c)"
    using onCheck_tries[of q c] that by auto
  show "tries_d (onSubmit r d)
          = (case reported_d r of Some t \<Rightarrow> min (tries_d d) t | None \<Rightarrow> tries_d d)"
    if "truthy_str (selectedId d)"
    using that by (rule onSubmit_tries_eq)
  show "onSubmit r d = d" if "\<not> truthy_str (selectedId d)"
    using that by (rule onSubmit_idle)
  show "tries (onCheck q c) = (case reported_c q of Some t \<Rightarrow> t | None \<Rightarrow> tries c)"
    if "truthy_str (selCatId c) \<and> truthy_str (selAmtId c) \<and> feedback_s c = None"
    using that by (rule onCheck_tries_eq)
  show "onCheck q c = c"
    if "\<not> (truthy_str (selCatId c) \<and> truthy_str (selAmtId c) \<and> feedback_s c = None)"
    using that by (rule onCheck_idle)
qed

theorem tries_counter_updates_witness:
  "truthy_str (selectedId det_round) \<and> 0 \<le> tries_d det_round
   \<and> reported_d (Inr lower_tries) = Some 2
   \<and> tries_d (onSubmit (Inr lower_tries) det_round) = 2
   \<and> tries_d (onSubmit (Inr lower_tries) det_round) \<le> tries_d det_round
   \<and> 0 \<le> tries_d (onSubmit (Inr lower_tries) det_round)
   \<and> truthy_str (selCatId conn_round) \<and> truthy_str (selAmtId conn_round)
   \<and> feedback_s conn_round = None \<and> 0 \<le> tries conn_round
   \<and> reported_c (Inr lower_tries_c) = Some 2
   \<and> tries (onCheck (Inr lower_tries_c) conn_round) = 2
   \<and> tries (onCheck (Inr lower_tries_c) conn_round) \<le> tries conn_round
   \<and> tries (onCheck (Inr raised_tries) conn_round) = 5"
proof -
  note t = tries_counter_updates[of "Inr lower_tries" det_round "Inr lower_tries_c" conn_round]
  note t' = tries_counter_updates[of "Inr lower_tries" det_round "Inr raised_tries" conn_round]
  have a: "reported_d (Inr lower_tries) = Some 2"
    by (simp add: reported_d_def lower_tries_def no_guess_def)
  have b: "reported_c (Inr lower_tries_c) = Some 2"
    by (simp add: reported_c_def lower_tries_c_def no_match_def)
  have b': "reported_c (Inr raised_tries) = Some 5"
    by (simp add: reported_c_def raised_tries_def no_match_def)
  have d0: "tries_d det_round = 3" by (simp add: det_round_eq)
  have c0: "tries conn_round = 3" by (simp add: conn_round_fields)
  have sd: "truthy_str (selectedId det_round)" by (simp add: det_round_eq truthy_str_def)
  have sc1: "truthy_str (selCatId conn_round)" and sc2: "truthy_str (selAmtId conn_round)"
    and sc3: "feedback_s conn_round = None"
    by (simp_all add: conn_round_fields truthy_str_def)
  have hd: "0 \<le> tries_d det_round \<and> (\<forall>t. reported_d (Inr lower_tries) = Some t \<longrightarrow> 0 \<le> t)"
    using a d0 by simp
  have hc: "0 \<le> tries conn_round
            \<and> (\<forall>t. reported_c (Inr lower_tries_c) = Some t \<longrightarrow> 0 \<le> t \<and> t \<le> tries conn_round)"
    using b c0 by simp
  have u1: "tries_d (onSubmit (Inr lower_tries) det_round) \<le> tries_d det_round"
    by (rule conjunct1[OF t])
  from t hd have u2: "0 \<le> tries_d (onSubmit (Inr lower_tries) det_round)" by blast
  from t hc have u3: "tries (onCheck (Inr lower_tries_c) conn_round) \<le> tries conn_round" by blast
  from t sd have "tries_d (onSubmit (Inr lower_tries) det_round)
      = (case reported_d (Inr lower_tries) of Some t \<Rightarrow> min (tries_d det_round) t
         | None \<Rightarrow> tries_d det_round)" by blast
  then have v1: "tries_d (onSubmit (Inr lower_tries) det_round) = 2" by (simp add: a d0)
  from t sc1 sc2 sc3 have "tries (onCheck (Inr lower_tries_c) conn_round)
      = (case reported_c (Inr lower_tries_c) of Some t \<Rightarrow> t | None \<Rightarrow> tries conn_round)"
    by blast
  then have v2: "tries (onCheck (Inr lower_tries_c) conn_round) = 2" by (simp add: b)
  from t' sc1 sc2 sc3 have "tries (onCheck (Inr raised_tries) conn_round)
      = (case reported_c (Inr raised_tries) of Some t \<Rightarrow> t | None \<Rightarrow> tries conn_round)"
    by blast
  then have v3: "tries (onCheck (Inr raised_tries) conn_round) = 5" by (simp add: b')
  have p0: "0 \<le> tries_d det_round" using d0 by simp
  have q0: "0 \<le> tries conn_round" using c0 by simp
  show ?thesis by (intro conjI sd p0 a v1 u1 u2 sc1 sc2 sc3 q0 b v2 u3 v3)
qed

text \<open>A reported 5 raises the categories counter from 3 to 5; a reported -1 makes the
  detective counter negative.\<close>

theorem tries_counter_counterexample:
  "tries conn_round = 3 \<and> tries (onCheck (Inr raised_tries) conn_round) = 5
   \<and> tries_d det_round = 3 \<and> tries_d (onSubmit (Inr negative_tries) det_round) = - 1"
  by (simp add: conn_round_eq onCheck_def raised_tries_def no_match_def truthy_str_def Let_def
      det_round_eq onSubmit_def negative_tries_def no_guess_def maybeFinishLocally_def
      foundCount_def)

section \<open>Completion of a detective round\<close>

lemma onSubmit_selected:
  assumes "truthy_str (selectedId s)"
  shows "selectedId (onSubmit (Inr j) s) = None"
  using assms
  by (simp add: onSubmit_def maybeFinishLocally_def Let_def split: option.splits)

lemma onSubmit_counts:
  assumes "truthy_str (selectedId s)"
  shows "totalCorrect (onSubmit (Inr j) s) =
           (case total_correct j of
              Some c \<Rightarrow> c
            | None \<Rightarrow> (case new_correct j of
                         Some k \<Rightarrow> if 0 < k then totalCorrect s + k else totalCorrect s
                       | None \<Rightarrow> totalCorrect s))"
    and "totalAnomalies (onSubmit (Inr j) s) =
           (case total_anomalies j of Some n \<Rightarrow> Some n | None \<Rightarrow> totalAnomalies s)"
  using assms
  by (auto simp: onSubmit_def maybeFinishLocally_def Let_def split: option.splits)

lemma onSubmit_completed:
  assumes "truthy_str (selectedId s)" "\<not> completed_d s"
  shows "completed_d (onSubmit (Inr j) s) =
           (round_complete_g j \<or>
            (case (case total_anomalies j of Some n \<Rightarrow> Some n | None \<Rightarrow> totalAnomalies s) of
               None \<Rightarrow> False
             | Some n \<Rightarrow>
                 n \<le> (case total_correct j of
                         Some c \<Rightarrow> c
                       | None \<Rightarrow> totalCorrect s
                                 + (case new_correct j of Some k \<Rightarrow> if 0 < k then 1 else 0
                                    | None \<Rightarrow> 0))))"
  using assms
  by (auto simp: onSubmit_def maybeFinishLocally_def foundCount_def Let_def split: option.splits)

lemma completed_presses:
  assumes "completed_d u"
  shows "pressSubmit r u = u" "pressTx t u = u"
  using assms by (simp_all add: pressSubmit_def pressTx_def shows_game_d_def)

lemma onSubmit_unselected: "selectedId u = None \<Longrightarrow> onSubmit r u = u"
  by (simp add: onSubmit_def truthy_str_def)

text \<open>
  A guess submitted in a round that is not completed, answered by a response that carries
  a running total or reports at most one new find, completes the round exactly when the
  response reports \<open>round_complete\<close> or the running correct count has reached the known
  anomaly total. In the completed state the game view is not rendered: a press on a card
  or on Submit changes nothing, and \<open>onSubmit\<close> itself finds no selection and returns.
\<close>

lemma onSubmit_completes_single_find:
  assumes sel: "truthy_str (selectedId s)" and nc: "\<not> completed_d s"
    and one: "total_correct j = None \<longrightarrow> (\<forall>k. new_correct j = Some k \<longrightarrow> k \<le> 1)"
  shows "(completed_d (onSubmit (Inr j) s) \<longleftrightarrow>
            round_complete_g j
            \<or> (\<exists>n. totalAnomalies (onSubmit (Inr j) s) = Some n
                    \<and> n \<le> totalCorrect (onSubmit (Inr j) s)))
       \<and> (completed_d (onSubmit (Inr j) s) \<longrightarrow>
            \<not> shows_game_d (onSubmit (Inr j) s)
            \<and> pressTx t (onSubmit (Inr j) s) = onSubmit (Inr j) s
            \<and> pressSubmit r (onSubmit (Inr j) s) = onSubmit (Inr j) s
            \<and> onSubmit r (onSubmit (Inr j) s) = onSubmit (Inr j) s)"
proof (intro conjI impI)
  have tc: "totalCorrect (onSubmit (Inr j) s) =
      (case total_correct j of
         Some c \<Rightarrow> c
       | None \<Rightarrow> totalCorrect s
                 + (case new_correct j of Some k \<Rightarrow> if 0 < k then 1 else 0 | None \<Rightarrow> 0))"
  proof (cases "total_correct j")
    case None
    show ?thesis
    proof (cases "new_correct j")
      case N: None
      then show ?thesis using None by (simp add: onSubmit_counts(1)[OF sel])
    next
      case (Some k)
      then have "k \<le> 1" using one None by simp
      then have "0 < k \<Longrightarrow> k = 1" by simp
      then show ?thesis using None Some by (auto simp: onSubmit_counts(1)[OF sel])
    qed
  next
    case (Some c)
    then show ?thesis by (simp add: onSubmit_counts(1)[OF sel])
  qed
  show "completed_d (onSubmit (Inr j) s) \<longleftrightarrow>
            round_complete_g j
            \<or> (\<exists>n. totalAnomalies (onSubmit (Inr j) s) = Some n
                    \<and> n \<le> totalCorrect (onSubmit (Inr j) s))"
    unfolding onSubmit_completed[OF sel nc] tc onSubmit_counts(2)[OF sel]
    by (simp split: option.splits)
  assume c: "completed_d (onSubmit (Inr j) s)"
  show "\<not> shows_game_d (onSubmit (Inr j) s)" using c by (simp add: shows_game_d_def)
  show "pressTx t (onSubmit (Inr j) s) = onSubmit (Inr j) s" by (rule completed_presses(2)[OF c])
  show "pressSubmit r (onSubmit (Inr j) s) = onSubmit (Inr j) s" by (rule completed_presses(1)[OF c])
  show "onSubmit r (onSubmit (Inr j) s) = onSubmit (Inr j) s"
    by (rule onSubmit_unselected[OF onSubmit_selected[OF sel]])
qed

text \<open>
  Claim C8. The round is to complete when the running correct count reaches the anomaly
  total. On a response that reports two new finds of two anomalies, with no running total
  and no \<open>round_complete\<close>, the screen stores 2 correct of 2 anomalies and does not
  complete the round: the stored count advances by \<open>new_correct\<close> while the completion
  test advances the count by 1. The game view stays on and takes further guesses.
\<close>

theorem onSubmit_misses_completion:
  "truthy_str (selectedId det_round) \<and> \<not> completed_d det_round
   \<and> \<not> round_complete_g double_find
   \<and> totalCorrect (onSubmit (Inr double_find) det_round) = 2
   \<and> totalAnomalies (onSubmit (Inr double_find) det_round) = Some 2
   \<and> \<not> completed_d (onSubmit (Inr double_find) det_round)
   \<and> shows_game_d (onSubmit (Inr double_find) det_round)
   \<and> pressTx ''t2'' (onSubmit (Inr double_find) det_round)
       \<noteq> onSubmit (Inr double_find) det_round"
proof -
  have h1: "truthy_str (selectedId det_round)" by (simp add: det_round_eq truthy_str_def)
  have h2: "\<not> completed_d det_round" by (simp add: det_round_eq)
  have h3: "\<not> round_complete_g double_find" by (simp add: double_find_def no_guess_def)
  have a: "totalCorrect (onSubmit (Inr double_find) det_round) = 2"
    using onSubmit_counts(1)[OF h1, of double_find]
    by (simp add: double_find_def no_guess_def det_round_eq)
  have b: "totalAnomalies (onSubmit (Inr double_find) det_round) = Some 2"
    using onSubmit_counts(2)[OF h1, of double_find]
    by (simp add: double_find_def no_guess_def)
  have c: "\<not> completed_d (onSubmit (Inr double_find) det_round)"
    unfolding onSubmit_completed[OF h1 h2]
    by (simp add: double_find_def no_guess_def det_round_eq)
  have e: "onSubmit (Inr double_find) det_round
      = \<lparr> loading_d = False, error_d = None, canPlay_d = True, lowMsg_d = None,
          tries_d = 3, transactions = [demo_tx ''t1'', demo_tx ''t2'', demo_tx ''t3''],
          roundId_d = Some ''r1'', selectedId = None, locked = {''t1''},
          totalAnomalies = Some 2, totalCorrect = 2, completed_d = False, reveal_d = None,
          finalStats_d = None \<rparr>"
    unfolding det_round_eq
    by (simp add: onSubmit_def maybeFinishLocally_def foundCount_def Let_def truthy_str_def
        double_find_def no_guess_def)
  have d: "shows_game_d (onSubmit (Inr double_find) det_round)"
    unfolding e by (simp add: shows_game_d_def truthy_str_def)
  have f: "pressTx ''t2'' (onSubmit (Inr double_find) det_round)
       \<noteq> onSubmit (Inr double_find) det_round"
    unfolding e
    by (simp add: pressTx_def shows_game_d_def truthy_str_def demo_tx_def)
  show ?thesis by (intro conjI h1 h2 h3 a b c d f)
qed

section \<open>Starts without enough data\<close>

lemma or_else_truthy: "d \<noteq> [] \<Longrightarrow> truthy_str (Some (or_else a d))"
  by (simp add: or_else_def truthy_str_def split: option.splits)

lemma loadQuiz_low:
  assumes "ok_n res" "\<not> can_play_n res" "insufficient_data_n res = Some True"
    "truthy_str (message_n res)"
  shows "lowDataMessage (loadQuiz (Inr res) s) =
           Some \<lparr> message_l = the (message_n res),
                  xp_awarded_l = (case xp_awarded_n res of Some x \<Rightarrow> x | None \<Rightarrow> 0),
                  level_l = num_or (level_n res) 1, streak_l = num_or (streak_n res) 0 \<rparr>"
    and "error_z (loadQuiz (Inr res) s) = None"
    and "loading_z (loadQuiz (Inr res) s) = False"
    and "questions_z (loadQuiz (Inr res) s) = questions_z s"
  using assms
  by (auto simp: loadQuiz_def Let_def num_or_def truthy_num_def split: option.splits)

lemma loadQuiz_refused:
  assumes "ok_n res" "\<not> can_play_n res"
    "\<not> (insufficient_data_n res = Some True \<and> truthy_str (message_n res))"
  shows "lowDataMessage (loadQuiz (Inr res) s) = None"
    and "error_z (loadQuiz (Inr res) s) = Some (or_else (message_n res) ''Cannot play quiz at this time'')"
  using assms
  by (auto simp: loadQuiz_def Let_def or_else_def truthy_str_def split: option.splits)

lemma startRound_low:
  assumes "ok_c j" "can_play_c j = Some False"
  shows "startRound (Inr j) c =
     c\<lparr> loading := False, error := None,
        lowMsg := Some (or_else (message_c j)
                          ''You received XP for a low-spend period. Come back soon!''),
        reveal := None, finalStats := None, completed := False, selCatId := None,
        selAmtId := None, feedback_s := None, solved := [], canPlay := False, tries := 0,
        categories_s := [], amounts_s := [], roundId := None \<rparr>"
  using assms by (simp add: startRound_def Let_def)

lemma startRound_d_low:
  assumes "ok_b j" "insufficient_data_b j = Some True"
  shows "canPlay_d (startRound_d (Inr j) d) = False"
    and "lowMsg_d (startRound_d (Inr j) d) = Some (or_else (message_b j) ''Not enough data yet.'')"
    and "error_d (startRound_d (Inr j) d) = None"
    and "loading_d (startRound_d (Inr j) d) = False"
    and "tries_d (startRound_d (Inr j) d) = 0"
    and "map_option xp_d (finalStats_d (startRound_d (Inr j) d))
           = Some (Some (case xp_awarded_b j of Some x \<Rightarrow> x | None \<Rightarrow> 0))"
  using assms by (simp_all add: startRound_d_def Let_def)

text \<open>
  Claim C4 (amended). A quiz start response that cannot be played shows the low-data
  card, with no error, exactly when it flags insufficient data and carries a non-empty
  message; the card shows that message and the XP awarded, 0 when absent, and so a
  non-negative figure whenever the server's award is non-negative. Without the flag or
  the message the quiz shows an error instead. The categories screen answers every
  \<open>can_play = false\<close> start with the message card (a default text when the message is
  absent), tries at 0, no board, no error and no XP figure. The detective screen answers
  every start that flags insufficient data with the message card and records the XP
  awarded, 0 when absent.
\<close>

theorem low_data_start_outcomes:
  "(ok_n res \<and> \<not> can_play_n res \<and> insufficient_data_n res = Some True
      \<and> truthy_str (message_n res) \<longrightarrow>
        quiz_view_of (loadQuiz (Inr res) s) = LowDataView
        \<and> error_z (loadQuiz (Inr res) s) = None
        \<and> map_option message_l (lowDataMessage (loadQuiz (Inr res) s)) = message_n res
        \<and> map_option xp_awarded_l (lowDataMessage (loadQuiz (Inr res) s))
            = Some (case xp_awarded_n res of Some x \<Rightarrow> x | None \<Rightarrow> 0)
        \<and> ((\<forall>x. xp_awarded_n res = Some x \<longrightarrow> 0 \<le> x) \<longrightarrow>
              (\<forall>m. lowDataMessage (loadQuiz (Inr res) s) = Some m \<longrightarrow> 0 \<le> xp_awarded_l m)))
   \<and> (ok_n res \<and> \<not> can_play_n res
      \<and> \<not> (insufficient_data_n res = Some True \<and> truthy_str (message_n res)) \<longrightarrow>
        lowDataMessage (loadQuiz (Inr res) s) = None
        \<and> truthy_str (error_z (loadQuiz (Inr res) s)))
   \<and> (ok_c j \<and> can_play_c j = Some False \<longrightarrow>
        shows_low (startRound (Inr j) c) \<and> \<not> shows_error (startRound (Inr j) c)
        \<and> \<not> shows_board (startRound (Inr j) c)
        \<and> lowMsg (startRound (Inr j) c)
            = Some (or_else (message_c j)
                      ''You received XP for a low-spend period. Come back soon!'')
        \<and> tries (startRound (Inr j) c) = 0 \<and> finalStats (startRound (Inr j) c) = None)
   \<and> (ok_b b \<and> insufficient_data_b b = Some True \<longrightarrow>
        shows_low_d (startRound_d (Inr b) d) \<and> \<not> shows_error_d (startRound_d (Inr b) d)
        \<and> \<not> shows_game_d (startRound_d (Inr b) d)
        \<and> lowMsg_d (startRound_d (Inr b) d) = Some (or_else (message_b b) ''Not enough data yet.'')
        \<and> map_option xp_d (finalStats_d (startRound_d (Inr b) d))
            = Some (Some (case xp_awarded_b b of Some x \<Rightarrow> x | None \<Rightarrow> 0)))"
proof (intro conjI impI allI)
  {
    assume a: "ok_n res \<and> \<not> can_play_n res \<and> insufficient_data_n res = Some True
      \<and> truthy_str (message_n res)"
    then have a1: "ok_n res" and a2: "\<not> can_play_n res"
      and a3: "insufficient_data_n res = Some True" and a4: "truthy_str (message_n res)"
      by simp_all
    note l = loadQuiz_low[OF a1 a2 a3 a4, of s]
    show "quiz_view_of (loadQuiz (Inr res) s) = LowDataView"
      by (simp add: quiz_view_of_def l truthy_str_def)
    show "error_z (loadQuiz (Inr res) s) = None" by (rule l(2))
    show "map_option message_l (lowDataMessage (loadQuiz (Inr res) s)) = message_n res"
      using a4 by (simp add: l(1) truthy_str_def split: option.splits)
    show "map_option xp_awarded_l (lowDataMessage (loadQuiz (Inr res) s))
            = Some (case xp_awarded_n res of Some x \<Rightarrow> x | None \<Rightarrow> 0)"
      by (simp add: l(1))
    fix m
    assume p: "\<forall>x. xp_awarded_n res = Some x \<longrightarrow> 0 \<le> x"
      and m: "lowDataMessage (loadQuiz (Inr res) s) = Some m"
    show "0 \<le> xp_awarded_l m" using p m by (auto simp: l(1) split: option.splits)
  }
  {
    assume a: "ok_n res \<and> \<not> can_play_n res
      \<and> \<not> (insufficient_data_n res = Some True \<and> truthy_str (message_n res))"
    then have a1: "ok_n res" and a2: "\<not> can_play_n res"
      and a3: "\<not> (insufficient_data_n res = Some True \<and> truthy_str (message_n res))"
      by simp_all
    note l = loadQuiz_refused[OF a1 a2 a3, of s]
    show "lowDataMessage (loadQuiz (Inr res) s) = None" by (rule l(1))
    show "truthy_str (error_z (loadQuiz (Inr res) s))"
      unfolding l(2) by (rule or_else_truthy) simp
  }
  {
    assume a: "ok_c j \<and> can_play_c j = Some False"
    then have a1: "ok_c j" and a2: "can_play_c j = Some False" by simp_all
    note l = startRound_low[OF a1 a2, of c]
    have t: "truthy_str (Some (or_else (message_c j)
                ''You received XP for a low-spend period. Come back soon!''))"
      by (rule or_else_truthy) simp
    show "shows_low (startRound (Inr j) c)"
      using t by (simp add: l shows_low_def truthy_str_def)
    show "\<not> shows_error (startRound (Inr j) c)" by (simp add: l shows_error_def truthy_str_def)
    show "\<not> shows_board (startRound (Inr j) c)" by (simp add: l shows_board_def)
    show "lowMsg (startRound (Inr j) c)
            = Some (or_else (message_c j)
                      ''You received XP for a low-spend period. Come back soon!'')"
      by (simp add: l)
    show "tries (startRound (Inr j) c) = 0" by (simp add: l)
    show "finalStats (startRound (Inr j) c) = None" by (simp add: l)
  }
  assume a: "ok_b b \<and> insufficient_data_b b = Some True"
  then have a1: "ok_b b" and a2: "insufficient_data_b b = Some True" by simp_all
  note l = startRound_d_low[OF a1 a2, of d]
  have t: "truthy_str (Some (or_else (message_b b) ''Not enough data yet.''))"
    by (rule or_else_truthy) simp
  show "shows_low_d (startRound_d (Inr b) d)"
    using t by (simp add: shows_low_d_def l truthy_str_def)
  show "\<not> shows_error_d (startRound_d (Inr b) d)" by (simp add: shows_error_d_def l truthy_str_def)
  show "\<not> shows_game_d (startRound_d (Inr b) d)" by (simp add: shows_game_d_def l)
  show "lowMsg_d (startRound_d (Inr b) d) = Some (or_else (message_b b) ''Not enough data yet.'')"
    by (rule l(2))
  show "map_option xp_d (finalStats_d (startRound_d (Inr b) d))
            = Some (Some (case xp_awarded_b b of Some x \<Rightarrow> x | None \<Rightarrow> 0))"
    by (rule l(6))
qed

text \<open>An insufficient-data response without a message puts the quiz on its error
  view.\<close>

theorem low_data_start_counterexample:
  "ok_n low_no_message \<and> \<not> can_play_n low_no_message
   \<and> insufficient_data_n low_no_message = Some True
   \<and> quiz_view_of (loadQuiz (Inr low_no_message) init_quiz) = ErrorView
   \<and> error_z (loadQuiz (Inr low_no_message) init_quiz) = Some ''Cannot play quiz at this time''
   \<and> lowDataMessage (loadQuiz (Inr low_no_message) init_quiz) = None"
  by (simp add: low_no_message_def init_quiz_def loadQuiz_def quiz_view_of_def Let_def
      truthy_str_def or_else_def currentQuestion_def)

theorem low_data_start_outcomes_witness:
  "ok_n low_with_message \<and> \<not> can_play_n low_with_message
   \<and> insufficient_data_n low_with_message = Some True \<and> truthy_str (message_n low_with_message)
   \<and> quiz_view_of (loadQuiz (Inr low_with_message) init_quiz) = LowDataView
   \<and> map_option xp_awarded_l (lowDataMessage (loadQuiz (Inr low_with_message) init_quiz)) = Some 50
   \<and> ok_c conn_low_start \<and> can_play_c conn_low_start = Some False
   \<and> shows_low (startRound (Inr conn_low_start) init_conn)
   \<and> tries (startRound (Inr conn_low_start) init_conn) = 0
   \<and> ok_b det_low_start \<and> insufficient_data_b det_low_start = Some True
   \<and> shows_low_d (startRound_d (Inr det_low_start) init_det)
   \<and> map_option xp_d (finalStats_d (startRound_d (Inr det_low_start) init_det)) = Some (Some 50)"
proof -
  note t = low_data_start_outcomes[of low_with_message init_quiz conn_low_start init_conn
      det_low_start init_det]
  have q: "ok_n low_with_message \<and> \<not> can_play_n low_with_message
      \<and> insufficient_data_n low_with_message = Some True \<and> truthy_str (message_n low_with_message)"
    by (simp add: low_with_message_def low_no_message_def truthy_str_def)
  have k: "ok_c conn_low_start \<and> can_play_c conn_low_start = Some False"
    by (simp add: conn_low_start_def)
  have e: "ok_b det_low_start \<and> insufficient_data_b det_low_start = Some True"
    by (simp add: det_low_start_def det_demo_start_def)
  have x: "xp_awarded_n low_with_message = Some 50"
    by (simp add: low_with_message_def low_no_message_def)
  have y: "xp_awarded_b det_low_start = Some 50"
    by (simp add: det_low_start_def det_demo_start_def)
  from t q have q1: "quiz_view_of (loadQuiz (Inr low_with_message) init_quiz) = LowDataView"
    and q2: "map_option xp_awarded_l (lowDataMessage (loadQuiz (Inr low_with_message) init_quiz))
            = Some (case xp_awarded_n low_with_message of Some x \<Rightarrow> x | None \<Rightarrow> 0)"
    by blast+
  from t k have k1: "shows_low (startRound (Inr conn_low_start) init_conn)"
    and k2: "tries (startRound (Inr conn_low_start) init_conn) = 0"
    by blast+
  from t e have e1: "shows_low_d (startRound_d (Inr det_low_start) init_det)"
    and e2: "map_option xp_d (finalStats_d (startRound_d (Inr det_low_start) init_det))
            = Some (Some (case xp_awarded_b det_low_start of Some x \<Rightarrow> x | None \<Rightarrow> 0))"
    by blast+
  have q2': "map_option xp_awarded_l (lowDataMessage (loadQuiz (Inr low_with_message) init_quiz))
            = Some 50" using q2 x by simp
  have e2': "map_option xp_d (finalStats_d (startRound_d (Inr det_low_start) init_det))
            = Some (Some 50)" using e2 y by simp
  show ?thesis using q k e q1 q2' k1 k2 e1 e2' by simp
qed

section \<open>Request time-outs\<close>

lemma fetchJson_settles: "\<exists>t r. fetchJson env T = Settled t r \<and> t \<le> T"
  by (cases env) (simp_all add: fetchJson_def)

lemma fetchJson_late:
  "\<not> arrives_before env T \<Longrightarrow> fetchJson env T = Settled T (Inl timeout_message)"
  by (cases env) (simp_all add: fetchJson_def arrives_before_def)

text \<open>
  Claim C9 (amended). The three requests of the quiz screen go through \<open>fetchJson\<close> with
  its default of 15000 ms: each settles within 15000 ms, and one whose response has not
  arrived by then is rejected at 15000 ms with the error whose message starts with
  \<open>Request timed out\<close>. (So does \<open>fetchJson\<close> for any \<open>timeoutMs\<close>.)
\<close>

theorem quiz_requests_time_out:
  "(\<exists>t r. startNewQuiz (Some tk) env = Settled t r \<and> t \<le> 15000)
   \<and> (\<exists>t r. answerQuestion (Some tk) env = Settled t r \<and> t \<le> 15000)
   \<and> (\<exists>t r. completeQuiz (Some tk) env = Settled t r \<and> t \<le> 15000)
   \<and> (\<not> arrives_before env 15000 \<longrightarrow>
        startNewQuiz (Some tk) env = Settled 15000 (Inl timeout_message)
        \<and> answerQuestion (Some tk) env = Settled 15000 (Inl timeout_message)
        \<and> completeQuiz (Some tk) env = Settled 15000 (Inl timeout_message))
   \<and> (\<exists>t r. fetchJson env T = Settled t r \<and> t \<le> T)
   \<and> (\<not> arrives_before env T \<longrightarrow> fetchJson env T = Settled T (Inl timeout_message))
   \<and> take 17 timeout_message = ''Request timed out''"
proof -
  have s: "startNewQuiz (Some tk) env = fetchJson env 15000"
    "answerQuestion (Some tk) env = fetchJson env 15000"
    "completeQuiz (Some tk) env = fetchJson env 15000"
    by (simp_all add: startNewQuiz_def answerQuestion_def completeQuiz_def)
  have m: "take 17 timeout_message = ''Request timed out''"
    by (simp add: timeout_message_def)
  show ?thesis
    unfolding s using fetchJson_settles[of env 15000] fetchJson_settles[of env T]
      fetchJson_late[of env 15000] fetchJson_late[of env T] m
    by blast
qed

theorem quiz_requests_time_out_witness:
  "\<not> arrives_before silent_server 15000
   \<and> startNewQuiz (Some ''token'') silent_server = Settled 15000 (Inl timeout_message)
   \<and> \<not> arrives_before (Responds 20000 ok_response) 15000
   \<and> completeQuiz (Some ''token'') (Responds 20000 ok_response)
        = Settled 15000 (Inl timeout_message)"
proof -
  have a: "\<not> arrives_before silent_server 15000"
    by (simp add: arrives_before_def silent_server_def)
  have b: "\<not> arrives_before (Responds 20000 ok_response) 15000"
    by (simp add: arrives_before_def)
  from quiz_requests_time_out[of "''token''" silent_server 0] a
  have c: "startNewQuiz (Some ''token'') silent_server = Settled 15000 (Inl timeout_message)"
    by blast
  from quiz_requests_time_out[of "''token''" "Responds 20000 ok_response" 0] b
  have d: "completeQuiz (Some ''token'') (Responds 20000 ok_response)
        = Settled 15000 (Inl timeout_message)"
    by blast
  show ?thesis by (intro conjI a b c d)
qed

text \<open>\<open>post\<close> accepts a response that takes 20 seconds, and stays pending when none
  comes.\<close>

theorem post_has_no_timeout_counterexample:
  "post (Some ''token'') (Responds 20000 ok_response) = Settled 20000 (Inr empty_obj)
   \<and> post (Some ''token'') silent_server = Pending"
  by (simp add: post_def post_result_def ok_response_def res_ok_def silent_server_def
      empty_obj_def)

end
